theory Spec2Isabelle
  imports Main "HOL-Library.Sublist" "HOL-Library.AList"
begin

section \<open>VibeSync: the snapshot capture and restore engine of \<open>src/extension.ts\<close>\<close>

text \<open>
  \<open>src/extension.ts\<close> holds two revisions of the extension. The first (lines 1 to 1787) is
  the one with the in-flight flags, the cooldown, the manifest-pinned patterns and the batch
  restore; the second (lines 1788 to 3244) is the revision that restores through a staging
  directory. Functions are modelled from the first revision under their own names; where the
  second revision differs, its function carries the suffix \<open>_staged\<close>.
\<close>

subsection \<open>Paths and the directory tree\<close>

text \<open>
  Every file the engine touches lies under the tracked directory: the live files, and the
  store \<open>.vibesync\<close> inside it (\<open>vibeDir = path.join(folderPath, '.vibesync')\<close>, line 378).
  The state of the disk is therefore the tree of the tracked directory. A path is the list
  of names from the tracked directory down; \<open>path.join(dir, name)\<close> appends a name,
  \<open>path.dirname\<close> drops the last, and \<open>path.relative(base, file)\<close> drops the names of
  \<open>base\<close>. The text Node sees for a path is \<open>renderPath ws p\<close>, where \<open>ws\<close> is the absolute,
  normalised path of the tracked directory (\<open>workspaceInfo.path\<close>) with POSIX separators.
  Names are taken as \<open>readdir\<close> gives them: non-empty, without \<open>/\<close>.
\<close>

type_synonym path = "string list"

definition renderPath :: "string \<Rightarrow> path \<Rightarrow> string" where
  "renderPath ws p = ws @ concat (map (\<lambda>name. CHR ''/'' # name) p)"

text \<open>\<open>WorkspaceStateMetadata\<close> (lines 7-16), the fields the engine writes.\<close>

record metadata =
  meta_id :: string
  meta_name :: string
  meta_description :: "string option"
  meta_timestamp :: int
  meta_tags :: "string list"

text \<open>
  \<open>manifestData\<close> (lines 1071-1084). \<open>readJSONSync\<close> gives an untyped object; the restore
  tests \<open>manifest.ignorePatterns && Array.isArray(manifest.ignorePatterns)\<close>, so the field is
  optional here.
\<close>

record manifest =
  manifest_id :: string
  manifest_name :: string
  manifest_description :: "string option"
  manifest_timestamp :: int
  manifest_tags :: "string list"
  manifest_workspacePath :: string
  manifest_ignorePatterns :: "string list option"

text \<open>
  What a file holds: bytes, or the JSON text of a manifest or of the index
  (\<open>writeJSONSync\<close>). \<open>readJSONSync\<close> of a file of the first kind throws.
\<close>

datatype content = Bytes string | ManifestJson manifest | MetadataJson "metadata list"

datatype node = File content | Dir "(string \<times> node) list"

fun lookup :: "node \<Rightarrow> path \<Rightarrow> node option" where
  "lookup n [] = Some n"
| "lookup (File c) (name # p) = None"
| "lookup (Dir entries) (name # p) =
     (case map_of entries name of None \<Rightarrow> None | Some n \<Rightarrow> lookup n p)"

text \<open>\<open>fs.existsSync\<close>\<close>

definition existsSync :: "node \<Rightarrow> path \<Rightarrow> bool" where
  "existsSync fs p = (lookup fs p \<noteq> None)"

text \<open>
  \<open>fs.remove\<close> of fs-extra: removes a file or a directory with all it holds, and does
  nothing when the path does not exist. In this model of the disk it never throws.
\<close>

fun remove :: "path \<Rightarrow> node \<Rightarrow> node" where
  "remove [] n = n"
| "remove (name # p) (File c) = File c"
| "remove [name] (Dir entries) = Dir (AList.delete name entries)"
| "remove (name # p) (Dir entries) =
     (case map_of entries name of
        None \<Rightarrow> Dir entries
      | Some n \<Rightarrow> Dir (AList.update name (remove p n) entries))"

text \<open>\<open>fs.unlinkSync\<close>: removes a file; throws (\<open>None\<close>) on a directory or a missing path.\<close>

definition unlinkSync :: "path \<Rightarrow> node \<Rightarrow> node option" where
  "unlinkSync p fs =
     (case lookup fs p of
        Some (File c) \<Rightarrow> (if p = [] then None else Some (remove p fs))
      | _ \<Rightarrow> None)"

text \<open>
  \<open>fs.ensureDirSync\<close> (\<open>mkdir -p\<close>): creates the missing directories of the path; throws when
  a name on the way is a file.
\<close>

fun ensureDirSync :: "path \<Rightarrow> node \<Rightarrow> node option" where
  "ensureDirSync p (File c) = None"
| "ensureDirSync [] (Dir entries) = Some (Dir entries)"
| "ensureDirSync (name # p) (Dir entries) =
     (case ensureDirSync p (case map_of entries name of None \<Rightarrow> Dir [] | Some n \<Rightarrow> n) of
        None \<Rightarrow> None
      | Some n' \<Rightarrow> Some (Dir (AList.update name n' entries)))"

text \<open>
  Writing a file (\<open>fs.writeJSONSync\<close>, the destination side of \<open>fs.copyFileSync\<close> and of a
  write stream): the parent must be a directory and the path itself must not be one; an
  existing file is replaced.
\<close>

fun writeFileSync :: "path \<Rightarrow> content \<Rightarrow> node \<Rightarrow> node option" where
  "writeFileSync p c (File c') = None"
| "writeFileSync [] c (Dir entries) = None"
| "writeFileSync [name] c (Dir entries) =
     (case map_of entries name of
        Some (Dir sub) \<Rightarrow> None
      | _ \<Rightarrow> Some (Dir (AList.update name (File c) entries)))"
| "writeFileSync (name # p) c (Dir entries) =
     (case map_of entries name of
        None \<Rightarrow> None
      | Some n \<Rightarrow>
          (case writeFileSync p c n of
             None \<Rightarrow> None
           | Some n' \<Rightarrow> Some (Dir (AList.update name n' entries))))"

text \<open>Reading a file: throws unless the path is a regular file.\<close>

definition readFileSync :: "node \<Rightarrow> path \<Rightarrow> content option" where
  "readFileSync fs p = (case lookup fs p of Some (File c) \<Rightarrow> Some c | _ \<Rightarrow> None)"

text \<open>\<open>fs.copyFileSync(src, dest)\<close>\<close>

definition copyFileSync :: "path \<Rightarrow> path \<Rightarrow> node \<Rightarrow> node option" where
  "copyFileSync src dest fs =
     (case readFileSync fs src of
        None \<Rightarrow> None
      | Some c \<Rightarrow> writeFileSync dest c fs)"

text \<open>\<open>fs.readJSONSync\<close> of a manifest file.\<close>

definition readManifest :: "node \<Rightarrow> path \<Rightarrow> manifest option" where
  "readManifest fs p =
     (case readFileSync fs p of Some (ManifestJson m) \<Rightarrow> Some m | _ \<Rightarrow> None)"

text \<open>Whether a path is a directory (\<open>entry.isDirectory()\<close>, \<open>fs.statSync(p).isDirectory()\<close>).\<close>

definition isDirectory :: "node \<Rightarrow> path \<Rightarrow> bool" where
  "isDirectory fs p = (case lookup fs p of Some (Dir entries) \<Rightarrow> True | _ \<Rightarrow> False)"

text \<open>A directory lists every name once.\<close>

fun wellFormed :: "node \<Rightarrow> bool" where
  "wellFormed (File c) = True"
| "wellFormed (Dir entries) =
     (distinct (map fst entries) \<and> list_all (\<lambda>(name, n). wellFormed n) entries)"

text \<open>
  The disk \<open>fs'\<close> is the disk \<open>fs\<close> with the file \<open>dst\<close> holding \<open>c\<close>, and the directories
  on the way to it made: the effect of one successful copy.
\<close>

definition copiedTo :: "node \<Rightarrow> path \<Rightarrow> content \<Rightarrow> node \<Rightarrow> bool" where
  "copiedTo fs dst c fs' \<longleftrightarrow>
     (\<forall>q. readFileSync fs' q = (if q = dst then Some c else readFileSync fs q)) \<and>
     (\<forall>q. isDirectory fs' q = (isDirectory fs q \<or> strict_prefix q dst))"

subsection \<open>The tree walk (\<open>getFilesRecursively\<close>, lines 710-753)\<close>

text \<open>
  \<open>ignorePatterns.some(pattern => entry.name === pattern || entryPath.includes(pattern))\<close>,
  where \<open>entryPath = path.join(dirPath, entry.name)\<close> is the text of the whole path.
\<close>

definition isIgnored :: "string \<Rightarrow> string list \<Rightarrow> path \<Rightarrow> string \<Rightarrow> bool" where
  "isIgnored ws ignorePatterns dirPath name =
     list_ex (\<lambda>pattern. name = pattern \<or> sublist pattern (renderPath ws (dirPath @ [name])))
       ignorePatterns"

text \<open>
  A pattern occurs in the text of a path. (The test \<open>entry.name === pattern\<close> of
  \<open>isIgnored\<close> adds nothing to it: the text of the path ends with the name.)
\<close>

definition pathIgnored :: "string \<Rightarrow> string list \<Rightarrow> path \<Rightarrow> bool" where
  "pathIgnored ws ignorePatterns p =
     list_ex (\<lambda>pattern. sublist pattern (renderPath ws p)) ignorePatterns"

text \<open>
  The walk of one directory, given the node that \<open>readdir\<close> reads at \<open>dirPath\<close>, and the
  \<open>for\<close> loop over its entries. The array \<open>results\<close> is shared by all calls, which push to
  it in turn. \<open>readdir\<close> of a path that is not a directory throws, and \<open>results\<close> is
  returned as it is.
\<close>

fun getFilesRecursively_dir ::
  "string \<Rightarrow> node \<Rightarrow> path \<Rightarrow> string list \<Rightarrow> path list \<Rightarrow> nat \<Rightarrow> nat \<Rightarrow> path list"
and getFilesRecursively_entries ::
  "string \<Rightarrow> (string \<times> node) list \<Rightarrow> path \<Rightarrow> string list \<Rightarrow> path list \<Rightarrow> nat \<Rightarrow> nat \<Rightarrow> path list"
where
  "getFilesRecursively_dir ws (File c) dirPath ignorePatterns results currentDepth maxDepth =
     results"
| "getFilesRecursively_dir ws (Dir entries) dirPath ignorePatterns results currentDepth maxDepth =
     (if currentDepth > maxDepth then results
      else getFilesRecursively_entries ws entries dirPath ignorePatterns results
             currentDepth maxDepth)"
| "getFilesRecursively_entries ws [] dirPath ignorePatterns results currentDepth maxDepth =
     results"
| "getFilesRecursively_entries ws ((name, n) # entries) dirPath ignorePatterns results
       currentDepth maxDepth =
     (if isIgnored ws ignorePatterns dirPath name then
        getFilesRecursively_entries ws entries dirPath ignorePatterns results
          currentDepth maxDepth
      else
        (case n of
           Dir sub \<Rightarrow>
             getFilesRecursively_entries ws entries dirPath ignorePatterns
               (getFilesRecursively_dir ws n (dirPath @ [name]) ignorePatterns results
                  (currentDepth + 1) maxDepth)
               currentDepth maxDepth
         | File c \<Rightarrow>
             getFilesRecursively_entries ws entries dirPath ignorePatterns
               (results @ [dirPath @ [name]]) currentDepth maxDepth))"

text \<open>The call with the default arguments \<open>results = []\<close>, \<open>currentDepth = 0\<close>, \<open>maxDepth = 100\<close>.\<close>

definition getFilesRecursively :: "string \<Rightarrow> node \<Rightarrow> path \<Rightarrow> string list \<Rightarrow> path list" where
  "getFilesRecursively ws fs dirPath ignorePatterns =
     (case lookup fs dirPath of
        None \<Rightarrow> []
      | Some n \<Rightarrow> getFilesRecursively_dir ws n dirPath ignorePatterns [] 0 100)"

subsection \<open>The exclusion test of the directory copy (\<open>simpleCopyDirectory\<close>, lines 954-959 and 2734-2737)\<close>

text \<open>
  \<open>simpleCopyDirectory\<close> tests each entry of the directory \<open>source\<close> on its name and on
  \<open>srcPath = path.join(source, entry.name)\<close>. The regular expressions are built from the
  pattern's text; \<open>RegExp\<close> itself belongs to the language, not to this program, and is the
  parameter \<open>regexTest\<close>: \<open>regexTest r s\<close> says whether the expression with source text \<open>r\<close>
  matches in \<open>s\<close>.

  First revision: \<open>new RegExp(`^${pattern.replace(/\*/g, '.*')}$`)\<close>.
\<close>

definition globSource :: "string \<Rightarrow> string" where
  "globSource pattern =
     ''^'' @ concat (map (\<lambda>c. if c = CHR ''*'' then ''.*'' else [c]) pattern) @ ''$''"

definition simpleCopyDirectory_ignored ::
  "(string \<Rightarrow> string \<Rightarrow> bool) \<Rightarrow> string \<Rightarrow> string list \<Rightarrow> path \<Rightarrow> string \<Rightarrow> bool" where
  "simpleCopyDirectory_ignored regexTest ws ignorePatterns source name =
     (let srcPath = renderPath ws (source @ [name]) in
      list_ex (\<lambda>pattern.
          name = pattern \<or>
          sublist (''/'' @ pattern @ ''/'') srcPath \<or>
          suffix (''/'' @ pattern) srcPath \<or>
          regexTest (globSource pattern) name)
        ignorePatterns)"

text \<open>
  Second revision: \<open>new RegExp(pattern.replace('*', '.*'))\<close>, where \<open>replace\<close> with a string
  as its first argument replaces the first occurrence only.
\<close>

fun replaceFirstStar :: "string \<Rightarrow> string" where
  "replaceFirstStar [] = []"
| "replaceFirstStar (c # cs) = (if c = CHR ''*'' then ''.*'' @ cs else c # replaceFirstStar cs)"

definition simpleCopyDirectory_staged_ignored ::
  "(string \<Rightarrow> string \<Rightarrow> bool) \<Rightarrow> string \<Rightarrow> string list \<Rightarrow> path \<Rightarrow> string \<Rightarrow> bool" where
  "simpleCopyDirectory_staged_ignored regexTest ws ignorePatterns source name =
     (let srcPath = renderPath ws (source @ [name]) in
      list_ex (\<lambda>pattern.
          name = pattern \<or>
          sublist pattern srcPath \<or>
          regexTest (replaceFirstStar pattern) name)
        ignorePatterns)"

subsection \<open>Retry loops (\<open>copyFileWithRetry\<close>, lines 869-896, and the closure of lines 1309-1365)\<close>

text \<open>
  One attempt is the body of the \<open>try\<close> block. It is a parameter \<open>attempt\<close> of the loops: a
  function from the state of the world before the attempt to whether it completed without
  an exception and the state it leaves. With a counter as the state, any sequence of
  outcomes is such a function; with a directory tree as the state, the attempt is the copy
  itself (below). What a loop does is recorded as a list of actions: an attempt, and a
  wait of so many milliseconds (\<open>setTimeout\<close>).
\<close>

datatype action = Attempt | Wait int

fun attempts_of :: "action list \<Rightarrow> nat" where
  "attempts_of [] = 0"
| "attempts_of (Attempt # tr) = Suc (attempts_of tr)"
| "attempts_of (Wait d # tr) = attempts_of tr"

fun waits_of :: "action list \<Rightarrow> int list" where
  "waits_of [] = []"
| "waits_of (Attempt # tr) = waits_of tr"
| "waits_of (Wait d # tr) = d # waits_of tr"

text \<open>\<open>Math.min(100 * Math.pow(2, attempts), 2000)\<close>\<close>

definition backoff_delay :: "nat \<Rightarrow> int" where
  "backoff_delay attempts = min (100 * 2 ^ attempts) 2000"

text \<open>
  The \<open>while (attempts < maxAttempts)\<close> loop of the method \<open>copyFileWithRetry\<close>, entered with
  the current value of \<open>attempts\<close>. The \<open>catch\<close> block increments \<open>attempts\<close>, returns
  \<open>false\<close> at the last attempt and waits otherwise. The result is the returned boolean, the
  actions, and the state of the world.
\<close>

function copyFileWithRetry_loop ::
  "('s \<Rightarrow> bool \<times> 's) \<Rightarrow> int \<Rightarrow> nat \<Rightarrow> 's \<Rightarrow> bool \<times> action list \<times> 's" where
  "copyFileWithRetry_loop attempt maxAttempts attempts s =
     (if int attempts < maxAttempts then
        (case attempt s of
           (True, s') \<Rightarrow> (True, [Attempt], s')
         | (False, s') \<Rightarrow>
             (let attempts' = Suc attempts in
              if int attempts' \<ge> maxAttempts then (False, [Attempt], s')
              else
                (let delay = backoff_delay attempts';
                     r = copyFileWithRetry_loop attempt maxAttempts attempts' s'
                 in (fst r, Attempt # Wait delay # fst (snd r), snd (snd r)))))
      else (False, [], s))"
  by pat_completeness auto
termination
  by (relation "measure (\<lambda>(attempt, maxAttempts, attempts, s). nat (maxAttempts - int attempts))")
    auto

declare copyFileWithRetry_loop.simps [simp del]


text \<open>
  The closure \<open>copyFileWithRetry\<close> that \<open>restoreSimpleSnapshot\<close> declares (the stream copy):
  \<open>for (let attempt = 0; attempt <= maxRetries; attempt++)\<close>, with a wait of
  \<open>500 * attempt\<close> before every attempt but the first.
\<close>

function copyFileWithRetry_stream_loop ::
  "('s \<Rightarrow> bool \<times> 's) \<Rightarrow> int \<Rightarrow> nat \<Rightarrow> 's \<Rightarrow> bool \<times> action list \<times> 's" where
  "copyFileWithRetry_stream_loop attempt maxRetries n s =
     (if int n \<le> maxRetries then
        (let pause = (if n > 0 then [Wait (500 * int n)] else []) in
         case attempt s of
           (True, s') \<Rightarrow> (True, pause @ [Attempt], s')
         | (False, s') \<Rightarrow>
             if int n = maxRetries then (False, pause @ [Attempt], s')
             else
               (let r = copyFileWithRetry_stream_loop attempt maxRetries (Suc n) s'
                in (fst r, pause @ Attempt # fst (snd r), snd (snd r))))
      else (False, [], s))"
  by pat_completeness auto
termination
  by (relation "measure (\<lambda>(attempt, maxRetries, n, s). nat (maxRetries + 1 - int n))") auto

declare copyFileWithRetry_stream_loop.simps [simp del]

definition copyFileWithRetry_stream ::
  "('s \<Rightarrow> bool \<times> 's) \<Rightarrow> int \<Rightarrow> 's \<Rightarrow> bool \<times> action list \<times> 's" where
  "copyFileWithRetry_stream attempt maxRetries s =
     copyFileWithRetry_stream_loop attempt maxRetries 0 s"

subsection \<open>Batch size of the restore's copy phase (lines 1385-1391)\<close>

definition batchSize :: "nat \<Rightarrow> nat" where
  "batchSize snapshotFiles_length =
     (if snapshotFiles_length > 5000 then 50
      else if snapshotFiles_length > 10000 then 20
      else 100)"

subsection \<open>The engine's state\<close>

text \<open>
  The fields of class \<open>VibeSync\<close> (lines 158-166) that capture and restore read and write.
  \<open>workspaceInfo\<close> holds the path of the tracked directory; \<open>vibeDir\<close> is set together with
  it and is \<open>.vibesync\<close> inside it.
\<close>

record vibe =
  workspaceStateMetadata :: "metadata list"
  workspaceInfo :: "string option"
  isRestoreInProgress :: bool
  isSaveInProgress :: bool
  lastOperation :: int

definition OPERATION_COOLDOWN_MS :: int where
  "OPERATION_COOLDOWN_MS = 2000"

definition vibeDir :: path where
  "vibeDir = [''.vibesync'']"

definition metadataFile :: path where
  "metadataFile = vibeDir @ [''metadata.json'']"

definition manifestName :: string where
  "manifestName = ''.vibesync-manifest.json''"

definition defaultIgnorePatterns :: "string list" where
  "defaultIgnorePatterns = [''node_modules'', ''.git'', ''.vibesync'', ''dist'', ''out'', ''build'']"

text \<open>
  How a call ends. The source returns a boolean and shows a message; the constructors name
  the message. Only \<open>Success\<close> is the return value \<open>true\<close>.
\<close>

datatype outcome =
    Success
  | NotInitialized
  | CooldownActive
  | AlreadyInProgress
  | SnapshotNotFound
  | MetadataUnreadable
  | NotConfirmed
  | Cancelled
  | Failed

text \<open>\<open>saveWorkspaceStateMetadata\<close> (lines 460-468): writes the index; an exception is logged.\<close>

definition saveWorkspaceStateMetadata :: "vibe \<Rightarrow> node \<Rightarrow> node" where
  "saveWorkspaceStateMetadata st fs =
     (case writeFileSync metadataFile (MetadataJson (workspaceStateMetadata st)) fs of
        None \<Rightarrow> fs
      | Some fs' \<Rightarrow> fs')"

subsection \<open>Capture (\<open>takeSimpleSnapshot\<close>, lines 1010-1183)\<close>

text \<open>
  The snapshot id:
  \<open>`state-${name.replace(/[^a-zA-Z0-9-_]/g, '-').toLowerCase()}-${timestamp}`\<close>.
\<close>

definition toLowerCase :: "char \<Rightarrow> char" where
  "toLowerCase c =
     (case map_of (zip ''ABCDEFGHIJKLMNOPQRSTUVWXYZ'' ''abcdefghijklmnopqrstuvwxyz'') c of
        None \<Rightarrow> c
      | Some l \<Rightarrow> l)"

definition sanitizeChar :: "char \<Rightarrow> char" where
  "sanitizeChar c =
     (if c \<in> set ''abcdefghijklmnopqrstuvwxyzABCDEFGHIJKLMNOPQRSTUVWXYZ0123456789-_''
      then toLowerCase c else CHR ''-'')"

function decimal :: "nat \<Rightarrow> string" where
  "decimal n =
     (if n < 10 then [''0123456789'' ! n]
      else decimal (n div 10) @ [''0123456789'' ! (n mod 10)])"
  by pat_completeness auto
termination
  by (relation "measure id") auto

declare decimal.simps [simp del]

definition snapshotId :: "string \<Rightarrow> nat \<Rightarrow> string" where
  "snapshotId name timestamp = ''state-'' @ map sanitizeChar name @ ''-'' @ decimal timestamp"

text \<open>\<open>description || undefined\<close>\<close>

definition orUndefined :: "string option \<Rightarrow> string option" where
  "orUndefined d = (if d = Some [] then None else d)"

text \<open>
  What the capture does to the disk and to the index, in order: the events the ordering of
  the capture is stated on.
\<close>

datatype capture_event =
    ManifestWritten path
  | CopyAttempted path path bool
  | MetadataPushed string



text \<open>
  The body of the \<open>for (const file of allFiles)\<close> loop (lines 1124-1150): the copy of one
  file, with the counters \<open>copiedCount\<close> and \<open>errorCount\<close>. An exception of
  \<open>ensureDirSync\<close> or \<open>copyFileSync\<close> is caught and counted.
\<close>

definition captureFile ::
  "path \<Rightarrow> path \<Rightarrow> node \<times> nat \<times> nat \<times> capture_event list \<Rightarrow>
   node \<times> nat \<times> nat \<times> capture_event list" where
  "captureFile snapshotDir file acc =
     (case acc of (fs, copiedCount, errorCount, log) \<Rightarrow>
        (let relativePath = file;
             destPath = snapshotDir @ relativePath
         in case ensureDirSync (butlast destPath) fs of
              None \<Rightarrow> (fs, copiedCount, errorCount + 1, log @ [CopyAttempted file destPath False])
            | Some fs1 \<Rightarrow>
                (case copyFileSync file destPath fs1 of
                   None \<Rightarrow>
                     (fs1, copiedCount, errorCount + 1, log @ [CopyAttempted file destPath False])
                 | Some fs2 \<Rightarrow>
                     (fs2, copiedCount + 1, errorCount, log @ [CopyAttempted file destPath True]))))"

text \<open>
  The inputs of one capture beside the engine's state and the disk: the two readings of
  \<open>Date.now()\<close> (lines 1024 and 1042), the arguments, and the setting
  \<open>vibesync.excludePatterns\<close>.
\<close>

record capture_request =
  capture_now :: int
  capture_timestamp :: nat
  capture_name :: string
  capture_description :: "string option"
  capture_tags :: "string list"
  capture_customIgnores :: "string list"

text \<open>
  The synchronous opening of \<open>takeSimpleSnapshot\<close> (lines 1018-1039): the guards, then the
  in-flight flag and the time of the operation. \<open>Inl\<close> is the early \<open>return false\<close>.
\<close>

definition takeSimpleSnapshot_enter :: "vibe \<Rightarrow> int \<Rightarrow> outcome + vibe" where
  "takeSimpleSnapshot_enter st now =
     (if workspaceInfo st = None then Inl NotInitialized
      else if now - lastOperation st < OPERATION_COOLDOWN_MS then Inl CooldownActive
      else if isSaveInProgress st then Inl AlreadyInProgress
      else Inr (st\<lparr>isSaveInProgress := True, lastOperation := now\<rparr>))"

text \<open>
  The rest of the capture (lines 1041-1182), from the state the opening leaves. The result
  is the outcome, the engine's state, the disk, the counters and the events.
\<close>

definition takeSimpleSnapshot_run ::
  "vibe \<Rightarrow> node \<Rightarrow> capture_request \<Rightarrow> outcome \<times> vibe \<times> node \<times> (nat \<times> nat) \<times> capture_event list" where
  "takeSimpleSnapshot_run st fs rq =
     (let ws = the (workspaceInfo st);
          timestamp = capture_timestamp rq;
          id = snapshotId (capture_name rq) timestamp;
          snapshotDir = vibeDir @ [id];
          allIgnorePatterns = defaultIgnorePatterns @ capture_customIgnores rq
      in case ensureDirSync snapshotDir fs of
           None \<Rightarrow> (Failed, st\<lparr>isSaveInProgress := False\<rparr>, fs, (0, 0), [])
         | Some fs1 \<Rightarrow>
             (let manifestData =
                    \<lparr> manifest_id = id,
                      manifest_name = capture_name rq,
                      manifest_description = orUndefined (capture_description rq),
                      manifest_timestamp = int timestamp,
                      manifest_tags = capture_tags rq,
                      manifest_workspacePath = ws,
                      manifest_ignorePatterns = Some allIgnorePatterns \<rparr>
              in case writeFileSync (snapshotDir @ [manifestName]) (ManifestJson manifestData) fs1 of
                   None \<Rightarrow> (Failed, st\<lparr>isSaveInProgress := False\<rparr>, fs1, (0, 0), [])
                 | Some fs2 \<Rightarrow>
                     (let allFiles = getFilesRecursively ws fs2 [] allIgnorePatterns;
                          r = foldl (\<lambda>acc file. captureFile snapshotDir file acc)
                                (fs2, 0, 0, [ManifestWritten (snapshotDir @ [manifestName])])
                                allFiles;
                          fs3 = fst r;
                          copiedCount = fst (snd r);
                          errorCount = fst (snd (snd r));
                          log = snd (snd (snd r));
                          metadata =
                            \<lparr> meta_id = id,
                              meta_name = capture_name rq,
                              meta_description = orUndefined (capture_description rq),
                              meta_timestamp = int timestamp,
                              meta_tags = capture_tags rq \<rparr>;
                          st1 = st\<lparr>workspaceStateMetadata := workspaceStateMetadata st @ [metadata]\<rparr>;
                          fs4 = saveWorkspaceStateMetadata st1 fs3
                      in (Success, st1\<lparr>isSaveInProgress := False\<rparr>, fs4,
                          (copiedCount, errorCount), log @ [MetadataPushed id]))))"

definition takeSimpleSnapshot ::
  "vibe \<Rightarrow> node \<Rightarrow> capture_request \<Rightarrow> outcome \<times> vibe \<times> node \<times> (nat \<times> nat) \<times> capture_event list" where
  "takeSimpleSnapshot st fs rq =
     (case takeSimpleSnapshot_enter st (capture_now rq) of
        Inl e \<Rightarrow> (e, st, fs, (0, 0), [])
      | Inr st1 \<Rightarrow> takeSimpleSnapshot_run st1 fs rq)"

subsection \<open>Restore (\<open>restoreSimpleSnapshot\<close>, lines 1188-1611)\<close>

text \<open>
  One attempt of the stream copy (the \<open>try\<close> block of lines 1311-1353): an existing
  destination is unlinked, the parent directories are made, the source is piped into a
  write stream opened with flag \<open>w\<close>, and the destination is checked to exist. When the read
  stream fails, the write stream has opened the destination, which is left empty.
\<close>

definition streamCopyAttempt :: "path \<Rightarrow> path \<Rightarrow> node \<Rightarrow> bool \<times> node" where
  "streamCopyAttempt sourcePath destPath fs =
     (case (if existsSync fs destPath then unlinkSync destPath fs else Some fs) of
        None \<Rightarrow> (False, fs)
      | Some fs1 \<Rightarrow>
          (case ensureDirSync (butlast destPath) fs1 of
             None \<Rightarrow> (False, fs1)
           | Some fs2 \<Rightarrow>
               (case readFileSync fs2 sourcePath of
                  None \<Rightarrow>
                    (case writeFileSync destPath (Bytes []) fs2 of
                       None \<Rightarrow> (False, fs2)
                     | Some fs3 \<Rightarrow> (False, fs3))
                | Some c \<Rightarrow>
                    (case writeFileSync destPath c fs2 of
                       None \<Rightarrow> (False, fs2)
                     | Some fs3 \<Rightarrow> (existsSync fs3 destPath, fs3)))))"

text \<open>
  The body of the copy loops (lines 1462-1487 and 1505-1538, the same but for the progress
  report): the copy of one file of the snapshot, with the counters \<open>copiedCount\<close> and
  \<open>copyErrors\<close>.
\<close>

definition restoreFile :: "int \<Rightarrow> path \<Rightarrow> path \<Rightarrow> node \<times> nat \<times> nat \<Rightarrow> node \<times> nat \<times> nat" where
  "restoreFile maxRetries snapshotDir file acc =
     (case acc of (fs, copiedCount, copyErrors) \<Rightarrow>
        (let relativePath = drop (length snapshotDir) file in
         if relativePath = [manifestName] \<or> relativePath = [''.vibesync-base''] then acc
         else
           (let destPath = relativePath;
                r = copyFileWithRetry_stream (streamCopyAttempt file destPath) maxRetries fs
            in if fst r then (snd (snd r), copiedCount + 1, copyErrors)
               else (snd (snd r), copiedCount, copyErrors + 1))))"

text \<open>
  The batch loop (lines 1445-1502), entered at \<open>batchIndex\<close>. \<open>cancel k\<close> is the value of
  \<open>token.isCancellationRequested\<close> at the \<open>k\<close>-th time it is read: reading 0 is the one
  before the deletions, reading \<open>batchIndex + 1\<close> the one before that batch. The boolean of
  the result says whether the loop ran to its end.
\<close>

function restoreBatches ::
  "(nat \<Rightarrow> bool) \<Rightarrow> int \<Rightarrow> path \<Rightarrow> path list \<Rightarrow> nat \<Rightarrow> nat \<Rightarrow> nat \<Rightarrow> node \<times> nat \<times> nat \<Rightarrow>
   bool \<times> node \<times> nat \<times> nat" where
  "restoreBatches cancel maxRetries snapshotDir snapshotFiles batch_size totalBatches batchIndex acc =
     (if batchIndex < totalBatches then
        (if cancel (batchIndex + 1) then (False, acc)
         else
           (let startIdx = batchIndex * batch_size;
                endIdx = min ((batchIndex + 1) * batch_size) (length snapshotFiles);
                batchFiles = take (endIdx - startIdx) (drop startIdx snapshotFiles)
            in restoreBatches cancel maxRetries snapshotDir snapshotFiles batch_size totalBatches
                 (batchIndex + 1)
                 (foldl (\<lambda>acc file. restoreFile maxRetries snapshotDir file acc) acc batchFiles)))
      else (True, acc))"
  by pat_completeness auto
termination
  by (relation "measure (\<lambda>(cancel, maxRetries, snapshotDir, snapshotFiles, batch_size,
        totalBatches, batchIndex, acc). totalBatches - batchIndex)") auto

declare restoreBatches.simps [simp del]

text \<open>
  The inputs of one restore beside the engine's state and the disk: \<open>Date.now()\<close>, the id,
  the answer to the confirmation dialog, the settings \<open>vibesync.excludePatterns\<close>,
  \<open>vibesync.maxRetryAttempts\<close> and \<open>vibesync.useSlowRestore\<close>, and the cancellation token.
\<close>

record restore_request =
  restore_now :: int
  restore_id :: string
  restore_confirmed :: bool
  restore_customIgnores :: "string list"
  restore_maxRetryAttempts :: int
  restore_useSlowRestore :: bool
  restore_cancel :: "nat \<Rightarrow> bool"

text \<open>
  The synchronous opening of \<open>restoreSimpleSnapshot\<close> (lines 1191-1212): the guards, then the
  in-flight flag and the time of the operation.
\<close>

definition restoreSimpleSnapshot_enter :: "vibe \<Rightarrow> int \<Rightarrow> outcome + vibe" where
  "restoreSimpleSnapshot_enter st now =
     (if workspaceInfo st = None then Inl NotInitialized
      else if now - lastOperation st < OPERATION_COOLDOWN_MS then Inl CooldownActive
      else if isRestoreInProgress st then Inl AlreadyInProgress
      else Inr (st\<lparr>isRestoreInProgress := True, lastOperation := now\<rparr>))"

text \<open>
  The exclusion patterns the restore uses (lines 1260-1303): the defaults and the setting,
  replaced by the manifest's when the manifest file exists, is read without an exception
  and holds an array \<open>ignorePatterns\<close>.
\<close>

definition restorePatterns :: "node \<Rightarrow> path \<Rightarrow> string list \<Rightarrow> string list" where
  "restorePatterns fs snapshotDir customIgnores =
     (let allIgnorePatterns = defaultIgnorePatterns @ customIgnores;
          manifestFile = snapshotDir @ [manifestName]
      in if existsSync fs manifestFile then
           (case readManifest fs manifestFile of
              None \<Rightarrow> allIgnorePatterns
            | Some manifest \<Rightarrow>
                (case manifest_ignorePatterns manifest of
                   None \<Rightarrow> allIgnorePatterns
                 | Some pats \<Rightarrow> pats))
         else allIgnorePatterns)"

text \<open>
  The body run under \<open>withProgress\<close> (lines 1371-1598): the two walks, the choice of batch
  mode, the deletions (step 2), the copies (step 3). The counters of the result are
  \<open>deletedCount\<close>, \<open>copiedCount\<close> and \<open>copyErrors\<close>.
\<close>

definition restoreSimpleSnapshot_progress ::
  "string \<Rightarrow> node \<Rightarrow> restore_request \<Rightarrow> path \<Rightarrow> string list \<Rightarrow> bool \<times> node \<times> nat \<times> nat \<times> nat" where
  "restoreSimpleSnapshot_progress ws fs rq snapshotDir allIgnorePatterns =
     (let maxRetries = restore_maxRetryAttempts rq;
          snapshotFiles = getFilesRecursively ws fs snapshotDir [manifestName, ''.vibesync-base''];
          workspaceFiles = getFilesRecursively ws fs [] allIgnorePatterns;
          useBatchMode = (restore_useSlowRestore rq \<or> length snapshotFiles > 1000);
          batch_size = batchSize (length snapshotFiles)
      in if restore_cancel rq 0 then (False, fs, 0, 0, 0)
         else
           (let fs1 = foldl (\<lambda>fs file. remove file fs) fs workspaceFiles;
                deletedCount = length workspaceFiles
            in if useBatchMode then
                 (let totalBatches = (length snapshotFiles + batch_size - 1) div batch_size;
                      r = restoreBatches (restore_cancel rq) maxRetries snapshotDir snapshotFiles
                            batch_size totalBatches 0 (fs1, 0, 0)
                  in (fst r, fst (snd r), deletedCount, snd (snd r)))
               else
                 (let r = foldl (\<lambda>acc file. restoreFile maxRetries snapshotDir file acc)
                            (fs1, 0, 0) snapshotFiles
                  in (True, fst r, deletedCount, snd r))))"

text \<open>
  The restore after its opening (lines 1214-1610), from the state the opening leaves. The
  snapshot directory is \<open>path.join(vibeDir, id)\<close>; the index \<open>workspaceStateMetadata\<close> is not
  read: the name shown in the dialog comes from the manifest.
\<close>

definition restoreSimpleSnapshot_run ::
  "vibe \<Rightarrow> node \<Rightarrow> restore_request \<Rightarrow> outcome \<times> vibe \<times> node \<times> nat \<times> nat \<times> nat" where
  "restoreSimpleSnapshot_run st fs rq =
     (let ws = the (workspaceInfo st);
          snapshotDir = vibeDir @ [restore_id rq];
          idle = st\<lparr>isRestoreInProgress := False\<rparr>
      in if \<not> existsSync fs snapshotDir then (SnapshotNotFound, idle, fs, 0, 0, 0)
         else
           (case readManifest fs (snapshotDir @ [manifestName]) of
              None \<Rightarrow> (MetadataUnreadable, idle, fs, 0, 0, 0)
            | Some metadata \<Rightarrow>
                if \<not> restore_confirmed rq then (NotConfirmed, idle, fs, 0, 0, 0)
                else
                  (let allIgnorePatterns =
                         restorePatterns fs snapshotDir (restore_customIgnores rq);
                       r = restoreSimpleSnapshot_progress ws fs rq snapshotDir allIgnorePatterns
                   in ((if fst r then Success else Cancelled), idle, snd r))))"

definition restoreSimpleSnapshot ::
  "vibe \<Rightarrow> node \<Rightarrow> restore_request \<Rightarrow> outcome \<times> vibe \<times> node \<times> nat \<times> nat \<times> nat" where
  "restoreSimpleSnapshot st fs rq =
     (case restoreSimpleSnapshot_enter st (restore_now rq) of
        Inl e \<Rightarrow> (e, st, fs, 0, 0, 0)
      | Inr st1 \<Rightarrow> restoreSimpleSnapshot_run st1 fs rq)"

subsection \<open>Deleting a snapshot (\<open>deleteVibe\<close>, lines 617-691 and 2397-2471)\<close>

text \<open>\<open>Array.prototype.findIndex\<close>; \<open>None\<close> is the result \<open>-1\<close>.\<close>

fun findIndex :: "('a \<Rightarrow> bool) \<Rightarrow> 'a list \<Rightarrow> nat option" where
  "findIndex P [] = None"
| "findIndex P (x # xs) = (if P x then Some 0 else map_option Suc (findIndex P xs))"

text \<open>\<open>array.splice(index, 1)\<close>\<close>

definition splice1 :: "nat \<Rightarrow> 'a list \<Rightarrow> 'a list" where
  "splice1 index xs = take index xs @ drop (Suc index) xs"

text \<open>
  The inputs of one deletion: the id (of the tree item, or picked), the answer to the
  confirmation dialog, and whether \<open>fs.removeSync\<close> of the content directory throws. The
  model of the disk has no permissions or locks, so that failure is an input; the disk is
  then taken as left untouched.
\<close>

record delete_request =
  delete_id :: string
  delete_confirmed :: bool
  delete_removeThrows :: bool

text \<open>
  The \<open>try\<close> block (lines 674-686) removes the directory, then splices the record out and
  saves the index; the \<open>catch\<close> block (lines 687-690) shows the error.
\<close>

definition deleteVibe :: "vibe \<Rightarrow> node \<Rightarrow> delete_request \<Rightarrow> outcome \<times> vibe \<times> node" where
  "deleteVibe st fs rq =
     (if workspaceInfo st = None then (NotInitialized, st, fs)
      else
        (case findIndex (\<lambda>s. meta_id s = delete_id rq) (workspaceStateMetadata st) of
           None \<Rightarrow> (SnapshotNotFound, st, fs)
         | Some index \<Rightarrow>
             (let workspaceState = workspaceStateMetadata st ! index in
              if \<not> delete_confirmed rq then (NotConfirmed, st, fs)
              else
                (let snapshotDir = vibeDir @ [meta_id workspaceState] in
                 if existsSync fs snapshotDir \<and> delete_removeThrows rq then (Failed, st, fs)
                 else
                   (let fs1 = (if existsSync fs snapshotDir then remove snapshotDir fs else fs);
                        st1 = st\<lparr>workspaceStateMetadata :=
                                 splice1 index (workspaceStateMetadata st)\<rparr>;
                        fs2 = saveWorkspaceStateMetadata st1 fs1
                    in (Success, st1, fs2))))))"

subsection \<open>The second revision's restore: the removal step (lines 3053-3093)\<close>

text \<open>
  \<open>removeWithRetry\<close> (lines 901-924 and 2681-2704) is the loop of the method
  \<open>copyFileWithRetry\<close> with \<open>fs.remove(targetPath)\<close> as the attempt.
\<close>

definition removeWithRetry ::
  "('s \<Rightarrow> bool \<times> 's) \<Rightarrow> int \<Rightarrow> 's \<Rightarrow> bool \<times> action list \<times> 's" where
  "removeWithRetry attempt maxAttempts s = copyFileWithRetry_loop attempt maxAttempts 0 s"

definition removeAttempt :: "path \<Rightarrow> node \<Rightarrow> bool \<times> node" where
  "removeAttempt targetPath fs = (True, remove targetPath fs)"

text \<open>
  The loop over the entries of the tracked directory (lines 3061-3082): an entry whose name
  is one of the patterns is skipped, any other is removed with all it holds. The counters
  are \<open>deletedCount\<close> and \<open>failedDeletions\<close>.
\<close>

fun restoreSimpleSnapshot_staged_remove ::
  "string list \<Rightarrow> int \<Rightarrow> (string \<times> node) list \<Rightarrow> node \<times> nat \<times> nat \<Rightarrow> node \<times> nat \<times> nat" where
  "restoreSimpleSnapshot_staged_remove allIgnorePatterns maxRetryAttempts [] acc = acc"
| "restoreSimpleSnapshot_staged_remove allIgnorePatterns maxRetryAttempts ((name, n) # entries)
       (fs, deletedCount, failedDeletions) =
     (if name \<in> set allIgnorePatterns then
        restoreSimpleSnapshot_staged_remove allIgnorePatterns maxRetryAttempts entries
          (fs, deletedCount, failedDeletions)
      else
        (let r = removeWithRetry (removeAttempt [name]) maxRetryAttempts fs in
         if fst r then
           restoreSimpleSnapshot_staged_remove allIgnorePatterns maxRetryAttempts entries
             (snd (snd r), deletedCount + 1, failedDeletions)
         else
           restoreSimpleSnapshot_staged_remove allIgnorePatterns maxRetryAttempts entries
             (snd (snd r), deletedCount, failedDeletions + 1)))"

text \<open>
  Step 5 of the second revision's restore: \<open>readdirSync\<close> of the tracked directory, then the
  loop, with the patterns \<open>[...ignorePatterns, ...customIgnores]\<close> (line 2974; the manifest
  is read at lines 2978-2989 but its patterns are only logged).
\<close>

definition restoreSimpleSnapshot_staged_step5 ::
  "node \<Rightarrow> string list \<Rightarrow> int \<Rightarrow> node \<times> nat \<times> nat" where
  "restoreSimpleSnapshot_staged_step5 fs customIgnores maxRetryAttempts =
     (case fs of
        File c \<Rightarrow> (fs, 0, 0)
      | Dir workspaceEntries \<Rightarrow>
          restoreSimpleSnapshot_staged_remove (defaultIgnorePatterns @ customIgnores)
            maxRetryAttempts workspaceEntries (fs, 0, 0))"

subsection \<open>Concrete inputs\<close>

text \<open>
  The scenario of the specification: files \<open>a.txt\<close> and \<open>sub/b.txt\<close>, the excluded directory
  \<open>node_modules\<close>, and the store. After the capture, \<open>a.txt\<close> is deleted, \<open>sub/b.txt\<close> is
  changed and \<open>c.txt\<close> is added.
\<close>

definition example_tree :: node where
  "example_tree =
     Dir [(''a.txt'', File (Bytes ''1'')),
          (''sub'', Dir [(''b.txt'', File (Bytes ''2''))]),
          (''node_modules'', Dir [(''x.txt'', File (Bytes ''3''))]),
          (''.vibesync'', Dir [])]"

definition example_state :: vibe where
  "example_state =
     \<lparr> workspaceStateMetadata = [], workspaceInfo = Some ''/w'',
       isRestoreInProgress = False, isSaveInProgress = False, lastOperation = 0 \<rparr>"

definition example_capture :: capture_request where
  "example_capture =
     \<lparr> capture_now = 5000, capture_timestamp = 5001, capture_name = ''S 1'',
       capture_description = None, capture_tags = [], capture_customIgnores = [] \<rparr>"

definition example_manifest :: manifest where
  "example_manifest =
     \<lparr> manifest_id = ''state-s-1-5001'', manifest_name = ''S 1'',
       manifest_description = None, manifest_timestamp = 5001,
       manifest_tags = [], manifest_workspacePath = ''/w'',
       manifest_ignorePatterns = Some defaultIgnorePatterns \<rparr>"

definition example_metadata :: metadata where
  "example_metadata =
     \<lparr> meta_id = ''state-s-1-5001'', meta_name = ''S 1'', meta_description = None,
       meta_timestamp = 5001, meta_tags = [] \<rparr>"

definition example_snapshot :: node where
  "example_snapshot =
     Dir [(''.vibesync-manifest.json'', File (ManifestJson example_manifest)),
          (''a.txt'', File (Bytes ''1'')),
          (''sub'', Dir [(''b.txt'', File (Bytes ''2''))])]"

definition example_captured :: node where
  "example_captured =
     Dir [(''a.txt'', File (Bytes ''1'')),
          (''sub'', Dir [(''b.txt'', File (Bytes ''2''))]),
          (''node_modules'', Dir [(''x.txt'', File (Bytes ''3''))]),
          (''.vibesync'',
             Dir [(''state-s-1-5001'', example_snapshot),
                  (''metadata.json'', File (MetadataJson [example_metadata]))])]"

definition example_mutated :: node where
  "example_mutated =
     Dir [(''sub'', Dir [(''b.txt'', File (Bytes ''9''))]),
          (''node_modules'', Dir [(''x.txt'', File (Bytes ''3''))]),
          (''.vibesync'',
             Dir [(''state-s-1-5001'', example_snapshot),
                  (''metadata.json'', File (MetadataJson [example_metadata]))]),
          (''c.txt'', File (Bytes ''4''))]"

definition example_no_manifest :: node where
  "example_no_manifest =
     Dir [(''sub'', Dir [(''b.txt'', File (Bytes ''9''))]),
          (''node_modules'', Dir [(''x.txt'', File (Bytes ''3''))]),
          (''.vibesync'',
             Dir [(''state-s-1-5001'',
                    Dir [(''a.txt'', File (Bytes ''1'')),
                         (''sub'', Dir [(''b.txt'', File (Bytes ''2''))])]),
                  (''metadata.json'', File (MetadataJson [example_metadata]))]),
          (''c.txt'', File (Bytes ''4''))]"

definition example_restore :: restore_request where
  "example_restore =
     \<lparr> restore_now = 9000, restore_id = ''state-s-1-5001'', restore_confirmed = True,
       restore_customIgnores = [], restore_maxRetryAttempts = 3, restore_useSlowRestore = False,
       restore_cancel = (\<lambda>k. False) \<rparr>"

definition example_restored :: node where
  "example_restored =
     Dir [(''sub'', Dir [(''b.txt'', File (Bytes ''2''))]),
          (''node_modules'', Dir [(''x.txt'', File (Bytes ''3''))]),
          (''.vibesync'',
             Dir [(''state-s-1-5001'', example_snapshot),
                  (''metadata.json'', File (MetadataJson [example_metadata]))]),
          (''a.txt'', File (Bytes ''1''))]"

text \<open>
  A file 102 names below the tracked directory: 101 directories \<open>d\<close>, one inside the
  other, and the file \<open>f\<close> in the last.
\<close>

fun nest :: "nat \<Rightarrow> node \<Rightarrow> node" where
  "nest 0 n = n"
| "nest (Suc k) n = Dir [(''d'', nest k n)]"

definition deep_tree :: node where
  "deep_tree =
     Dir [(''d'', nest 100 (Dir [(''f'', File (Bytes ''1''))])),
          (''.vibesync'', Dir [])]"

definition deep_path :: path where
  "deep_path = replicate 101 ''d'' @ [''f'']"

definition deep_store :: node where
  "deep_store =
     Dir [(''state-s-1-5001'',
             Dir [(''.vibesync-manifest.json'', File (ManifestJson example_manifest))]),
          (''metadata.json'', File (MetadataJson [example_metadata]))]"

definition deep_captured :: node where
  "deep_captured =
     Dir [(''d'', nest 100 (Dir [(''f'', File (Bytes ''1''))])),
          (''.vibesync'', deep_store)]"

text \<open>The mutated copy: the directories \<open>d\<close> and the file in them are gone.\<close>

definition deep_mutated :: node where
  "deep_mutated = Dir [(''.vibesync'', deep_store)]"

text \<open>An excluded directory inside a directory that is not excluded.\<close>

definition example_nested :: node where
  "example_nested =
     Dir [(''src'',
             Dir [(''main.ts'', File (Bytes ''5'')),
                  (''node_modules'', Dir [(''x.txt'', File (Bytes ''3''))])]),
          (''node_modules'', Dir [(''y.txt'', File (Bytes ''6''))]),
          (''.vibesync'',
             Dir [(''state-s-1-5001'', example_snapshot),
                  (''metadata.json'', File (MetadataJson [example_metadata]))])]"

text \<open>The engine after the capture of the scenario, and a confirmed deletion of the snapshot.\<close>

definition example_indexed :: vibe where
  "example_indexed = example_state\<lparr>workspaceStateMetadata := [example_metadata]\<rparr>"

definition example_delete :: delete_request where
  "example_delete =
     \<lparr> delete_id = ''state-s-1-5001'', delete_confirmed = True, delete_removeThrows = False \<rparr>"

definition example_deleted :: node where
  "example_deleted =
     Dir [(''a.txt'', File (Bytes ''1'')),
          (''sub'', Dir [(''b.txt'', File (Bytes ''2''))]),
          (''node_modules'', Dir [(''x.txt'', File (Bytes ''3''))]),
          (''.vibesync'', Dir [(''metadata.json'', File (MetadataJson []))])]"

section \<open>Properties\<close>

subsection \<open>Batch size\<close>

text \<open>
  C10. In batch-mode restore the batch size is 100 for every snapshot file count of at most
  5000 and 50 for every count above 5000; the 20-file tier is never selected, because its
  guard is only evaluated when the guard \<open>count > 5000\<close> is false.
\<close>

theorem batchSize_tiers:
  "batchSize n = (if n \<le> 5000 then 100 else 50) \<and> batchSize n \<noteq> 20"
  by (simp add: batchSize_def)

theorem batchSize_tiers_witness:
  "batchSize 5000 = 100 \<and> batchSize 5001 = 50 \<and> batchSize 10001 = 50 \<and> batchSize 10001 \<noteq> 20"
  using batchSize_tiers [of 5000] batchSize_tiers [of 5001] batchSize_tiers [of 10001]
  by simp

subsection \<open>Retry loops\<close>

lemma copyFileWithRetry_loop_unfold:
  "copyFileWithRetry_loop attempt m a s =
     (if int a < m then
        (if fst (attempt s) then (True, [Attempt], snd (attempt s))
         else if m \<le> int (Suc a) then (False, [Attempt], snd (attempt s))
         else (fst (copyFileWithRetry_loop attempt m (Suc a) (snd (attempt s))),
               Attempt # Wait (backoff_delay (Suc a)) #
                 fst (snd (copyFileWithRetry_loop attempt m (Suc a) (snd (attempt s)))),
               snd (snd (copyFileWithRetry_loop attempt m (Suc a) (snd (attempt s))))))
      else (False, [], s))"
  by (subst copyFileWithRetry_loop.simps) (simp add: Let_def split: prod.split bool.split)



lemma copyFileWithRetry_loop_between:
  "Suc (length (waits_of (fst (snd (copyFileWithRetry_loop attempt m a s))))) =
     attempts_of (fst (snd (copyFileWithRetry_loop attempt m a s))) \<or>
   fst (snd (copyFileWithRetry_loop attempt m a s)) = []"
proof (induction "nat (m - int a)" arbitrary: a s)
  case 0
  then show ?case by (subst (1 2 3) copyFileWithRetry_loop_unfold) simp
next
  case (Suc n)
  then have n: "n = nat (m - int (Suc a))" by simp
  have "fst (snd (copyFileWithRetry_loop attempt m (Suc a) (snd (attempt s)))) \<noteq> []"
    if "\<not> m \<le> int (Suc a)"
    using that by (subst copyFileWithRetry_loop_unfold) simp
  with Suc.hyps(1)[OF n, of "snd (attempt s)"] show ?case
    by (subst (1 2 3) copyFileWithRetry_loop_unfold) auto
qed


lemma copyFileWithRetry_stream_loop_unfold:
  "copyFileWithRetry_stream_loop attempt m a s =
     (if int a \<le> m then
        (if fst (attempt s) then
           (True, (if a > 0 then [Wait (500 * int a)] else []) @ [Attempt], snd (attempt s))
         else if int a = m then
           (False, (if a > 0 then [Wait (500 * int a)] else []) @ [Attempt], snd (attempt s))
         else (fst (copyFileWithRetry_stream_loop attempt m (Suc a) (snd (attempt s))),
               (if a > 0 then [Wait (500 * int a)] else []) @ Attempt #
                 fst (snd (copyFileWithRetry_stream_loop attempt m (Suc a) (snd (attempt s)))),
               snd (snd (copyFileWithRetry_stream_loop attempt m (Suc a) (snd (attempt s))))))
      else (False, [], s))"
  by (subst copyFileWithRetry_stream_loop.simps) (simp add: Let_def split: prod.split bool.split)








subsection \<open>Evaluation of the concrete inputs\<close>


lemmas fs_defs = existsSync_def unlinkSync_def readFileSync_def copyFileSync_def readManifest_def
  vibeDir_def metadataFile_def manifestName_def
lemmas walk_defs = getFilesRecursively_def defaultIgnorePatterns_def isIgnored_def renderPath_def
  sublist_code
lemmas example_defs = example_tree_def example_state_def example_capture_def example_manifest_def
  example_metadata_def example_snapshot_def example_captured_def example_mutated_def
  example_restore_def example_restored_def example_no_manifest_def example_nested_def
  example_indexed_def example_delete_def example_deleted_def

lemma decimal_5001: "decimal 5001 = ''5001''"
  by (simp add: decimal.simps)

lemma snapshotId_example: "snapshotId ''S 1'' 5001 = ''state-s-1-5001''"
  by (simp add: snapshotId_def sanitizeChar_def toLowerCase_def decimal_5001)

lemma example_takeSimpleSnapshot:
  "takeSimpleSnapshot example_state example_tree example_capture =
    (Success,
     example_state\<lparr>workspaceStateMetadata := [example_metadata], lastOperation := 5000\<rparr>,
     example_captured, (2, 0),
     [ManifestWritten [''.vibesync'', ''state-s-1-5001'', ''.vibesync-manifest.json''],
      CopyAttempted [''a.txt''] [''.vibesync'', ''state-s-1-5001'', ''a.txt''] True,
      CopyAttempted [''sub'', ''b.txt''] [''.vibesync'', ''state-s-1-5001'', ''sub'', ''b.txt''] True,
      MetadataPushed ''state-s-1-5001''])"
  by (simp add: takeSimpleSnapshot_def takeSimpleSnapshot_enter_def takeSimpleSnapshot_run_def
      example_defs OPERATION_COOLDOWN_MS_def snapshotId_example Let_def fs_defs walk_defs
      orUndefined_def captureFile_def saveWorkspaceStateMetadata_def)

lemmas restore_defs = restoreSimpleSnapshot_def restoreSimpleSnapshot_enter_def restoreSimpleSnapshot_run_def
      restoreSimpleSnapshot_progress_def restorePatterns_def restoreFile_def streamCopyAttempt_def
      copyFileWithRetry_stream_def copyFileWithRetry_stream_loop_unfold batchSize_def
      OPERATION_COOLDOWN_MS_def Let_def

lemma example_restore_run:
  "workspaceInfo st = Some ''/w'' \<Longrightarrow>
   restoreSimpleSnapshot_run st example_mutated example_restore =
     (Success, st\<lparr>isRestoreInProgress := False\<rparr>, example_restored, 2, 2, 0)"
  by (simp add: restore_defs example_defs fs_defs walk_defs)

subsection \<open>The in-flight flags\<close>





subsection \<open>Order of the capture's writes\<close>







subsection \<open>Resolving the snapshot and its manifest\<close>

lemma restorePatterns_manifest:
  "readManifest fs (snapshotDir @ [manifestName]) = Some m \<Longrightarrow>
   manifest_ignorePatterns m = Some pats \<Longrightarrow>
   restorePatterns fs snapshotDir customIgnores = pats"
  by (auto simp: restorePatterns_def Let_def existsSync_def readManifest_def readFileSync_def
      split: option.splits)

lemma restorePatterns_fallback:
  "readManifest fs (snapshotDir @ [manifestName]) = None \<Longrightarrow>
   restorePatterns fs snapshotDir customIgnores = defaultIgnorePatterns @ customIgnores"
  by (auto simp: restorePatterns_def Let_def)

lemma restoreSimpleSnapshot_missing_directory:
  "\<not> existsSync fs (vibeDir @ [restore_id rq]) \<Longrightarrow>
   fst (restoreSimpleSnapshot st fs rq) \<noteq> Success \<and>
   fst (snd (snd (restoreSimpleSnapshot st fs rq))) = fs"
  by (simp add: restoreSimpleSnapshot_def restoreSimpleSnapshot_enter_def
      restoreSimpleSnapshot_run_def Let_def)

lemma restoreSimpleSnapshot_unreadable_manifest:
  "readManifest fs (vibeDir @ [restore_id rq, manifestName]) = None \<Longrightarrow>
   fst (restoreSimpleSnapshot st fs rq) \<noteq> Success \<and>
   fst (snd (snd (restoreSimpleSnapshot st fs rq))) = fs"
  by (simp add: restoreSimpleSnapshot_def restoreSimpleSnapshot_enter_def
      restoreSimpleSnapshot_run_def Let_def)

text \<open>
  C3. The failing input: the content directory \<open>.vibesync/state-s-1-5001\<close> exists and holds
  the captured files, but its manifest file is absent. The patterns would fall back to the
  defaults and the caller's (\<open>restorePatterns\<close>, lines 1282-1303), but the restore has
  returned before: the read of the manifest at line 1226 throws and the restore ends with
  the message of line 1236, the disk as it was.
\<close>

theorem restore_without_manifest:
  "existsSync example_no_manifest [''.vibesync'', ''state-s-1-5001'']
   \<and> readManifest example_no_manifest
         [''.vibesync'', ''state-s-1-5001'', ''.vibesync-manifest.json''] = None
   \<and> restorePatterns example_no_manifest [''.vibesync'', ''state-s-1-5001''] [''tmp''] =
         defaultIgnorePatterns @ [''tmp'']
   \<and> restoreSimpleSnapshot (example_state\<lparr>lastOperation := 5000\<rparr>) example_no_manifest
         example_restore =
       (MetadataUnreadable, example_state\<lparr>lastOperation := 9000\<rparr>, example_no_manifest, 0, 0, 0)"
  by (simp add: restoreSimpleSnapshot_def restoreSimpleSnapshot_enter_def
      restoreSimpleSnapshot_run_def restorePatterns_def Let_def OPERATION_COOLDOWN_MS_def
      example_defs fs_defs)

text \<open>
  C8. The failing input: the index \<open>workspaceStateMetadata\<close> is empty, so the id has no
  index record, while the content directory and its manifest are on disk. The restore does
  not fail: it deletes \<open>c.txt\<close>, rewrites \<open>sub/b.txt\<close> and returns \<open>true\<close>.
\<close>

theorem restore_without_index_record:
  "findIndex (\<lambda>s. meta_id s = restore_id example_restore)
       (workspaceStateMetadata (example_state\<lparr>lastOperation := 5000\<rparr>)) = None
   \<and> restoreSimpleSnapshot (example_state\<lparr>lastOperation := 5000\<rparr>) example_mutated
         example_restore =
       (Success, example_state\<lparr>lastOperation := 9000\<rparr>, example_restored, 2, 2, 0)
   \<and> readFileSync example_mutated [''c.txt''] = Some (Bytes ''4'')
   \<and> readFileSync example_restored [''c.txt''] = None
   \<and> readFileSync example_mutated [''sub'', ''b.txt''] = Some (Bytes ''9'')
   \<and> readFileSync example_restored [''sub'', ''b.txt''] = Some (Bytes ''2'')"
proof -
  have "restoreSimpleSnapshot_enter (example_state\<lparr>lastOperation := 5000\<rparr>) 9000 =
      Inr (example_state\<lparr>lastOperation := 9000, isRestoreInProgress := True\<rparr>)"
    by (simp add: restoreSimpleSnapshot_enter_def example_state_def OPERATION_COOLDOWN_MS_def)
  moreover have "restoreSimpleSnapshot_run
       (example_state\<lparr>lastOperation := 9000, isRestoreInProgress := True\<rparr>)
       example_mutated example_restore =
     (Success, example_state\<lparr>lastOperation := 9000\<rparr>, example_restored, 2, 2, 0)"
    by (subst example_restore_run) (simp_all add: example_state_def)
  moreover have "restore_now example_restore = 9000"
    by (simp add: example_restore_def)
  ultimately have "restoreSimpleSnapshot (example_state\<lparr>lastOperation := 5000\<rparr>) example_mutated
         example_restore =
       (Success, example_state\<lparr>lastOperation := 9000\<rparr>, example_restored, 2, 2, 0)"
    by (simp add: restoreSimpleSnapshot_def)
  then show ?thesis
    by (simp add: example_state_def example_mutated_def example_restored_def readFileSync_def)
qed

subsection \<open>The directory tree\<close>

lemma lookup_File [simp]: "lookup (File c) p = (if p = [] then Some (File c) else None)"
  by (cases p) simp_all

lemma lookup_append:
  "lookup n (p @ q) = (case lookup n p of None \<Rightarrow> None | Some n' \<Rightarrow> lookup n' q)"
  by (induction n p rule: lookup.induct) (auto split: option.splits)

lemma readFileSync_Nil_Dir [simp]: "readFileSync (Dir es) [] = None"
  by (simp add: readFileSync_def)

lemma readFileSync_File [simp]: "readFileSync (File c) p = (if p = [] then Some c else None)"
  by (simp add: readFileSync_def)

lemma readFileSync_Cons [simp]:
  "readFileSync (Dir es) (name # p) =
     (case map_of es name of None \<Rightarrow> None | Some n \<Rightarrow> readFileSync n p)"
  by (simp add: readFileSync_def split: option.splits)

lemma isDirectory_Nil [simp]: "isDirectory (Dir es) [] = True" "isDirectory (File c) p = False"
  by (simp_all add: isDirectory_def)

lemma isDirectory_Cons [simp]:
  "isDirectory (Dir es) (name # p) =
     (case map_of es name of None \<Rightarrow> False | Some n \<Rightarrow> isDirectory n p)"
  by (simp add: isDirectory_def split: option.splits)

lemma readFileSync_empty [simp]: "readFileSync (Dir []) p = None"
  by (cases p) simp_all

lemma isDirectory_empty [simp]: "isDirectory (Dir []) p = (p = [])"
  by (cases p) simp_all

lemma file_has_no_children:
  "readFileSync n p = Some c \<Longrightarrow> r \<noteq> [] \<Longrightarrow> lookup n (p @ r) = None"
  by (auto simp: lookup_append readFileSync_def split: option.splits node.splits)

lemma file_not_directory: "readFileSync n p = Some c \<Longrightarrow> \<not> isDirectory n p"
  by (auto simp: readFileSync_def isDirectory_def split: option.splits node.splits)

lemma remove_Cons:
  "remove (name # p) (Dir es) =
     (if p = [] then Dir (AList.delete name es)
      else case map_of es name of
             None \<Rightarrow> Dir es
           | Some n \<Rightarrow> Dir (AList.update name (remove p n) es))"
  by (cases p) (auto split: option.splits)

lemma writeFileSync_Cons:
  "writeFileSync (name # p) c (Dir es) =
     (if p = [] then
        (case map_of es name of
           Some (Dir sub) \<Rightarrow> None
         | _ \<Rightarrow> Some (Dir (AList.update name (File c) es)))
      else
        (case map_of es name of
           None \<Rightarrow> None
         | Some n \<Rightarrow>
             (case writeFileSync p c n of
                None \<Rightarrow> None
              | Some n' \<Rightarrow> Some (Dir (AList.update name n' es)))))"
  by (cases p) (auto split: option.splits)

lemma readFileSync_remove:
  "p \<noteq> [] \<Longrightarrow> readFileSync (remove p n) q = (if prefix p q then None else readFileSync n q)"
proof (induction p arbitrary: n q)
  case Nil
  then show ?case by simp
next
  case (Cons name p)
  show ?case
  proof (cases n)
    case (File c)
    then show ?thesis by (cases q) auto
  next
    case (Dir es)
    show ?thesis
    proof (cases q)
      case Nil
      then show ?thesis using Dir by (simp add: remove_Cons split: option.splits)
    next
      case q: (Cons a list)
      show ?thesis
      proof (cases "a = name")
        case True
        show ?thesis
        proof (cases "p = []")
          case True
          with \<open>a = name\<close> q Dir show ?thesis by (simp add: remove_Cons delete_conv')
        next
          case False
          with \<open>a = name\<close> q Dir Cons.IH[OF False] show ?thesis
            by (simp add: remove_Cons update_conv' split: option.splits)
        qed
      next
        case False
        with q Dir show ?thesis
          by (simp add: remove_Cons update_conv' delete_conv' split: option.splits)
      qed
    qed
  qed
qed

lemma isDirectory_remove:
  "p \<noteq> [] \<Longrightarrow> isDirectory (remove p n) q = (isDirectory n q \<and> \<not> prefix p q)"
proof (induction p arbitrary: n q)
  case Nil
  then show ?case by simp
next
  case (Cons name p)
  show ?case
  proof (cases n)
    case (File c)
    then show ?thesis by (cases q) auto
  next
    case (Dir es)
    show ?thesis
    proof (cases q)
      case Nil
      then show ?thesis using Dir by (simp add: remove_Cons split: option.splits)
    next
      case q: (Cons a list)
      show ?thesis
      proof (cases "a = name")
        case True
        show ?thesis
        proof (cases "p = []")
          case True
          with \<open>a = name\<close> q Dir show ?thesis by (simp add: remove_Cons delete_conv')
        next
          case False
          with \<open>a = name\<close> q Dir Cons.IH[OF False] show ?thesis
            by (simp add: remove_Cons update_conv' split: option.splits)
        qed
      next
        case False
        with q Dir show ?thesis
          by (simp add: remove_Cons update_conv' delete_conv' split: option.splits)
      qed
    qed
  qed
qed


lemma writeFileSync_Some_iff:
  "writeFileSync p c n \<noteq> None \<longleftrightarrow> p \<noteq> [] \<and> isDirectory n (butlast p) \<and> \<not> isDirectory n p"
proof (induction p arbitrary: n)
  case Nil
  then show ?case by (cases n) simp_all
next
  case (Cons name p)
  show ?case
  proof (cases n)
    case (File c')
    then show ?thesis by simp
  next
    case (Dir es)
    show ?thesis
    proof (cases "p = []")
      case True
      with Dir show ?thesis
        by (simp add: writeFileSync_Cons split: option.splits node.splits)
    next
      case False
      show ?thesis
      proof (cases "map_of es name")
        case None
        with Dir False show ?thesis by (simp add: writeFileSync_Cons)
      next
        case (Some m)
        have "writeFileSync (name # p) c n \<noteq> None \<longleftrightarrow> writeFileSync p c m \<noteq> None"
          using Dir False Some by (simp add: writeFileSync_Cons split: option.splits)
        also have "\<dots> \<longleftrightarrow> p \<noteq> [] \<and> isDirectory m (butlast p) \<and> \<not> isDirectory m p"
          by (rule Cons.IH)
        finally show ?thesis using Dir False Some by simp
      qed
    qed
  qed
qed

lemma readFileSync_write:
  "writeFileSync p c n = Some n' \<Longrightarrow> readFileSync n' q = (if q = p then Some c else readFileSync n q)"
proof (induction p arbitrary: n n' q)
  case Nil
  then show ?case by (cases n) simp_all
next
  case (Cons name p)
  show ?case
  proof (cases n)
    case (File c')
    with Cons.prems show ?thesis by simp
  next
    case (Dir es)
    show ?thesis
    proof (cases "p = []")
      case True
      with Dir Cons.prems have n': "n' = Dir (AList.update name (File c) es)"
        and nd: "\<not> isDirectory n [name]"
        by (auto simp: writeFileSync_Cons split: option.splits node.splits)
      show ?thesis
      proof (cases q)
        case Nil
        then show ?thesis using n' Dir by simp
      next
        case q: (Cons a list)
        then show ?thesis using n' Dir True nd
          by (cases "a = name")
             (auto simp: update_conv' isDirectory_def split: option.splits node.splits)
      qed
    next
      case False
      with Dir Cons.prems obtain m m' where m: "map_of es name = Some m"
        "writeFileSync p c m = Some m'" "n' = Dir (AList.update name m' es)"
        by (auto simp: writeFileSync_Cons split: option.splits)
      show ?thesis
      proof (cases q)
        case Nil
        then show ?thesis using m Dir by simp
      next
        case q: (Cons a list)
        then show ?thesis using m Dir Cons.IH[OF m(2), of list]
          by (cases "a = name") (auto simp: update_conv' split: option.splits)
      qed
    qed
  qed
qed

lemma isDirectory_write:
  "writeFileSync p c n = Some n' \<Longrightarrow> isDirectory n' q = isDirectory n q"
proof (induction p arbitrary: n n' q)
  case Nil
  then show ?case by (cases n) simp_all
next
  case (Cons name p)
  show ?case
  proof (cases n)
    case (File c')
    with Cons.prems show ?thesis by simp
  next
    case (Dir es)
    show ?thesis
    proof (cases "p = []")
      case True
      with Dir Cons.prems have n': "n' = Dir (AList.update name (File c) es)"
        and nd: "\<not> isDirectory n [name]"
        by (auto simp: writeFileSync_Cons split: option.splits node.splits)
      show ?thesis
      proof (cases q)
        case Nil
        then show ?thesis using n' Dir by simp
      next
        case q: (Cons a list)
        then show ?thesis using n' Dir True nd
          by (cases "a = name") (auto simp: update_conv' isDirectory_def split: option.splits node.splits)
      qed
    next
      case False
      with Dir Cons.prems obtain m m' where m: "map_of es name = Some m"
        "writeFileSync p c m = Some m'" "n' = Dir (AList.update name m' es)"
        by (auto simp: writeFileSync_Cons split: option.splits)
      show ?thesis
      proof (cases q)
        case Nil
        then show ?thesis using m Dir by simp
      next
        case q: (Cons a list)
        then show ?thesis using m Dir Cons.IH[OF m(2), of list]
          by (cases "a = name") (auto simp: update_conv' split: option.splits)
      qed
    qed
  qed
qed

lemma ensureDirSync_Cons:
  "ensureDirSync (name # p) (Dir es) = Some n' \<Longrightarrow>
   \<exists>m'. ensureDirSync p (case map_of es name of None \<Rightarrow> Dir [] | Some n \<Rightarrow> n) = Some m' \<and>
        n' = Dir (AList.update name m' es)"
  by (auto split: option.splits)

lemma readFileSync_ensureDir:
  "ensureDirSync p n = Some n' \<Longrightarrow> readFileSync n' q = readFileSync n q"
proof (induction p arbitrary: n n' q)
  case Nil
  then show ?case by (cases n) simp_all
next
  case (Cons name p)
  show ?case
  proof (cases n)
    case (File c')
    with Cons.prems show ?thesis by simp
  next
    case (Dir es)
    with Cons.prems obtain m' where m:
      "ensureDirSync p (case map_of es name of None \<Rightarrow> Dir [] | Some n \<Rightarrow> n) = Some m'"
      "n' = Dir (AList.update name m' es)"
      using ensureDirSync_Cons by blast
    show ?thesis
    proof (cases q)
      case Nil
      then show ?thesis using m Dir by simp
    next
      case q: (Cons a list)
      then show ?thesis using m Dir Cons.IH[OF m(1), of list]
        by (cases "a = name") (auto simp: update_conv' split: option.splits)
    qed
  qed
qed

lemma isDirectory_ensureDir:
  "ensureDirSync p n = Some n' \<Longrightarrow> isDirectory n' q = (isDirectory n q \<or> prefix q p)"
proof (induction p arbitrary: n n' q)
  case Nil
  then show ?case by (cases n) auto
next
  case (Cons name p)
  show ?case
  proof (cases n)
    case (File c')
    with Cons.prems show ?thesis by simp
  next
    case (Dir es)
    with Cons.prems obtain m' where m:
      "ensureDirSync p (case map_of es name of None \<Rightarrow> Dir [] | Some n \<Rightarrow> n) = Some m'"
      "n' = Dir (AList.update name m' es)"
      using ensureDirSync_Cons by blast
    show ?thesis
    proof (cases q)
      case Nil
      then show ?thesis using m Dir by simp
    next
      case q: (Cons a list)
      then show ?thesis using m Dir Cons.IH[OF m(1), of list]
        by (cases "a = name") (auto simp: update_conv' split: option.splits)
    qed
  qed
qed

lemma ensureDirSync_Some_iff:
  "ensureDirSync p n \<noteq> None \<longleftrightarrow> (\<forall>q. prefix q p \<longrightarrow> readFileSync n q = None)"
proof (induction p arbitrary: n)
  case Nil
  then show ?case by (cases n) auto
next
  case (Cons name p)
  show ?case
  proof (cases n)
    case (File c')
    then show ?thesis by (auto intro: exI[of _ "[]"])
  next
    case (Dir es)
    let ?m = "case map_of es name of None \<Rightarrow> Dir [] | Some n \<Rightarrow> n"
    have "ensureDirSync (name # p) n \<noteq> None \<longleftrightarrow> ensureDirSync p ?m \<noteq> None"
      using Dir by (auto split: option.splits)
    also have "\<dots> \<longleftrightarrow> (\<forall>q. prefix q p \<longrightarrow> readFileSync ?m q = None)"
      by (rule Cons.IH)
    also have "\<dots> \<longleftrightarrow> (\<forall>q. prefix q (name # p) \<longrightarrow> readFileSync n q = None)"
    proof
      assume h: "\<forall>q. prefix q p \<longrightarrow> readFileSync ?m q = None"
      show "\<forall>q. prefix q (name # p) \<longrightarrow> readFileSync n q = None"
      proof (intro allI impI)
        fix q assume "prefix q (name # p)"
        then show "readFileSync n q = None"
          using h Dir by (cases q) (auto split: option.splits)
      qed
    next
      assume h: "\<forall>q. prefix q (name # p) \<longrightarrow> readFileSync n q = None"
      show "\<forall>q. prefix q p \<longrightarrow> readFileSync ?m q = None"
      proof (intro allI impI)
        fix q assume "prefix q p"
        then have "readFileSync n (name # q) = None" using h by simp
        then show "readFileSync ?m q = None"
          using Dir by (auto split: option.splits)
      qed
    qed
    finally show ?thesis .
  qed
qed

subsection \<open>Well-formed trees\<close>

lemma list_all_update:
  "list_all P es \<Longrightarrow> P (k, v) \<Longrightarrow> list_all P (AList.update k v es)"
  by (induction es) auto

lemma list_all_delete:
  "list_all P es \<Longrightarrow> list_all P (AList.delete k es)"
  by (induction es) auto

lemma wellFormed_map_of:
  "wellFormed (Dir es) \<Longrightarrow> map_of es name = Some n \<Longrightarrow> wellFormed n"
  by (auto simp: list_all_iff dest!: map_of_SomeD)

lemma wellFormed_lookup:
  "wellFormed n \<Longrightarrow> lookup n p = Some n' \<Longrightarrow> wellFormed n'"
proof (induction p arbitrary: n)
  case Nil
  then show ?case by simp
next
  case (Cons name p)
  show ?case
  proof (cases n)
    case (File c)
    with Cons.prems show ?thesis by simp
  next
    case (Dir es)
    with Cons.prems obtain m where m: "map_of es name = Some m" "lookup m p = Some n'"
      by (auto split: option.splits)
    with Cons.prems Dir have "wellFormed m" using wellFormed_map_of by blast
    with m Cons.IH show ?thesis by blast
  qed
qed

lemma wellFormed_remove: "wellFormed n \<Longrightarrow> wellFormed (remove p n)"
proof (induction p arbitrary: n)
  case Nil
  then show ?case by simp
next
  case (Cons name p)
  show ?case
  proof (cases n)
    case (File c)
    then show ?thesis by simp
  next
    case (Dir es)
    show ?thesis
    proof (cases "p = []")
      case True
      with Dir Cons.prems show ?thesis
        by (simp add: remove_Cons distinct_delete list_all_delete)
    next
      case False
      show ?thesis
      proof (cases "map_of es name")
        case None
        with Dir False Cons.prems show ?thesis by (simp add: remove_Cons)
      next
        case (Some m)
        then have "wellFormed (remove p m)"
          using Cons.IH Cons.prems Dir wellFormed_map_of by blast
        with Dir False Some Cons.prems show ?thesis
          by (simp add: remove_Cons distinct_update list_all_update)
      qed
    qed
  qed
qed

lemma wellFormed_write: "wellFormed n \<Longrightarrow> writeFileSync p c n = Some n' \<Longrightarrow> wellFormed n'"
proof (induction p arbitrary: n n')
  case Nil
  then show ?case by (cases n) simp_all
next
  case (Cons name p)
  show ?case
  proof (cases n)
    case (File c')
    with Cons.prems show ?thesis by simp
  next
    case (Dir es)
    show ?thesis
    proof (cases "p = []")
      case True
      with Dir Cons.prems have "n' = Dir (AList.update name (File c) es)"
        by (auto simp: writeFileSync_Cons split: option.splits node.splits)
      with Dir Cons.prems show ?thesis
        by (simp add: distinct_update list_all_update)
    next
      case False
      with Dir Cons.prems obtain m m' where m: "map_of es name = Some m"
        "writeFileSync p c m = Some m'" "n' = Dir (AList.update name m' es)"
        by (auto simp: writeFileSync_Cons split: option.splits)
      then have "wellFormed m'"
        using Cons.IH Cons.prems Dir wellFormed_map_of by blast
      with m Dir Cons.prems show ?thesis
        by (simp add: distinct_update list_all_update)
    qed
  qed
qed

lemma wellFormed_ensureDir: "wellFormed n \<Longrightarrow> ensureDirSync p n = Some n' \<Longrightarrow> wellFormed n'"
proof (induction p arbitrary: n n')
  case Nil
  then show ?case by (cases n) auto
next
  case (Cons name p)
  show ?case
  proof (cases n)
    case (File c')
    with Cons.prems show ?thesis by simp
  next
    case (Dir es)
    with Cons.prems obtain m' where m:
      "ensureDirSync p (case map_of es name of None \<Rightarrow> Dir [] | Some n \<Rightarrow> n) = Some m'"
      "n' = Dir (AList.update name m' es)"
      using ensureDirSync_Cons by blast
    have "wellFormed (case map_of es name of None \<Rightarrow> Dir [] | Some n \<Rightarrow> n)"
    proof (cases "map_of es name")
      case None
      then show ?thesis by simp
    next
      case (Some m)
      then show ?thesis using Cons.prems(1) Dir wellFormed_map_of by auto
    qed
    then have "wellFormed m'" using Cons.IH m(1) by blast
    with m Dir Cons.prems show ?thesis
      by (simp add: distinct_update list_all_update)
  qed
qed

subsection \<open>What the walk lists\<close>

lemma renderPath_append:
  "renderPath ws (p @ q) = renderPath ws p @ concat (map (\<lambda>name. CHR ''/'' # name) q)"
  by (simp add: renderPath_def)

lemma isIgnored_pathIgnored:
  "isIgnored ws pats dirPath name = pathIgnored ws pats (dirPath @ [name])"
proof -
  have "sublist pattern (renderPath ws (dirPath @ [name]))" if "name = pattern" for pattern
    using that by (auto simp: renderPath_append suffix_def intro: suffix_imp_sublist)
  then show ?thesis
    by (auto simp: isIgnored_def pathIgnored_def list_ex_iff)
qed

lemma pathIgnored_append: "pathIgnored ws pats p \<Longrightarrow> pathIgnored ws pats (p @ q)"
  by (auto simp: pathIgnored_def list_ex_iff renderPath_append
      intro: sublist_order.order_trans)

lemma listed_Cons:
  assumes "name \<notin> fst ` set es"
  shows "{dirPath @ q |q. readFileSync (Dir ((name, x) # es)) q \<noteq> None \<and> P q} =
         {dirPath @ name # q' |q'. readFileSync x q' \<noteq> None \<and> P (name # q')} \<union>
         {dirPath @ q |q. readFileSync (Dir es) q \<noteq> None \<and> P q}"
proof -
  have none: "map_of es name = None" using assms by (simp add: map_of_eq_None_iff)
  have r: "readFileSync (Dir ((name, x) # es)) q \<noteq> None \<longleftrightarrow>
        (\<exists>q'. q = name # q' \<and> readFileSync x q' \<noteq> None) \<or> readFileSync (Dir es) q \<noteq> None" for q
  proof (cases q)
    case Nil
    then show ?thesis by simp
  next
    case (Cons s q')
    then show ?thesis using none by (cases "s = name") (auto split: option.splits)
  qed
  show ?thesis unfolding r by blast
qed

lemma getFilesRecursively_sets:
  "wellFormed n \<Longrightarrow>
     set (getFilesRecursively_dir ws n dirPath pats results d m) =
       set results \<union>
       {dirPath @ q |q. readFileSync n q \<noteq> None \<and>
          (q \<noteq> [] \<and> \<not> pathIgnored ws pats (dirPath @ q) \<and> d + length q \<le> Suc m)}"
  "distinct (map fst es) \<Longrightarrow> list_all (\<lambda>(name, n). wellFormed n) es \<Longrightarrow> d \<le> m \<Longrightarrow>
     set (getFilesRecursively_entries ws es dirPath pats results d m) =
       set results \<union>
       {dirPath @ q |q. readFileSync (Dir es) q \<noteq> None \<and>
          (q \<noteq> [] \<and> \<not> pathIgnored ws pats (dirPath @ q) \<and> d + length q \<le> Suc m)}"
proof (induction ws n dirPath pats results d m and ws es dirPath pats results d m
       rule: getFilesRecursively_dir_getFilesRecursively_entries.induct)
  case (1 ws c dirPath ignorePatterns results currentDepth maxDepth)
  show ?case by auto
next
  case (2 ws entries dirPath ignorePatterns results currentDepth maxDepth)
  show ?case
  proof (cases "currentDepth > maxDepth")
    case True
    have "\<not> (currentDepth + length q \<le> Suc maxDepth)" if "q \<noteq> []" for q
      using True that by (cases q) auto
    then show ?thesis using True by auto
  next
    case False
    with 2 show ?thesis by simp
  qed
next
  case (3 ws dirPath ignorePatterns results currentDepth maxDepth)
  show ?case by simp
next
  case (4 ws name n entries dirPath ignorePatterns results currentDepth maxDepth)
  from "4.prems" have notin: "name \<notin> fst ` set entries" and dist: "distinct (map fst entries)"
    and wfn: "wellFormed n" and wfs: "list_all (\<lambda>(name, n). wellFormed n) entries"
    by auto
  define P where "P = (\<lambda>q. q \<noteq> [] \<and> \<not> pathIgnored ws ignorePatterns (dirPath @ q) \<and>
           currentDepth + length q \<le> Suc maxDepth)"
  define A where "A = {dirPath @ name # q' |q'. readFileSync n q' \<noteq> None \<and> P (name # q')}"
  define B where "B = {dirPath @ q |q. readFileSync (Dir entries) q \<noteq> None \<and> P q}"
  have split: "{dirPath @ q |q. readFileSync (Dir ((name, n) # entries)) q \<noteq> None \<and> P q} = A \<union> B"
    unfolding A_def B_def by (rule listed_Cons[OF notin])
  have ih_rest: "set (getFilesRecursively_entries ws entries dirPath ignorePatterns rs
                   currentDepth maxDepth) = set rs \<union> B"
    if "set (getFilesRecursively_entries ws entries dirPath ignorePatterns rs
                   currentDepth maxDepth) =
        set rs \<union> {dirPath @ q |q. readFileSync (Dir entries) q \<noteq> None \<and>
          (q \<noteq> [] \<and> \<not> pathIgnored ws ignorePatterns (dirPath @ q) \<and>
           currentDepth + length q \<le> Suc maxDepth)}" for rs
    using that unfolding B_def P_def .
  have goal: ?case
    if "set (getFilesRecursively_entries ws ((name, n) # entries) dirPath ignorePatterns results
              currentDepth maxDepth) = set results \<union> (A \<union> B)"
    using that unfolding split[symmetric] P_def .
  show ?case
  proof (cases "isIgnored ws ignorePatterns dirPath name")
    case True
    then have "pathIgnored ws ignorePatterns (dirPath @ name # q')" for q'
      using pathIgnored_append[of ws ignorePatterns "dirPath @ [name]" q']
      by (simp add: isIgnored_pathIgnored)
    then have "A = {}" unfolding A_def P_def by auto
    moreover have "set (getFilesRecursively_entries ws entries dirPath ignorePatterns results
                   currentDepth maxDepth) = set results \<union> B"
      by (rule ih_rest, rule "4.IH"(1)[OF True dist wfs "4.prems"(3)])
    ultimately show ?thesis using True by (intro goal) simp
  next
    case False
    then have ni: "\<not> pathIgnored ws ignorePatterns (dirPath @ [name])"
      by (simp add: isIgnored_pathIgnored)
    show ?thesis
    proof (cases n)
      case (Dir sub)
      let ?rs = "getFilesRecursively_dir ws n (dirPath @ [name]) ignorePatterns results
                 (currentDepth + 1) maxDepth"
      have a: "set ?rs =
            set results \<union> {(dirPath @ [name]) @ q |q. readFileSync n q \<noteq> None \<and>
              (q \<noteq> [] \<and> \<not> pathIgnored ws ignorePatterns ((dirPath @ [name]) @ q) \<and>
               (currentDepth + 1) + length q \<le> Suc maxDepth)}"
        using "4.IH"(3)[OF False Dir wfn] .
      have b: "{(dirPath @ [name]) @ q |q. readFileSync n q \<noteq> None \<and>
              (q \<noteq> [] \<and> \<not> pathIgnored ws ignorePatterns ((dirPath @ [name]) @ q) \<and>
               (currentDepth + 1) + length q \<le> Suc maxDepth)} = A"
        unfolding A_def P_def using Dir by auto
      have c: "set (getFilesRecursively_entries ws entries dirPath ignorePatterns ?rs
                   currentDepth maxDepth) = set ?rs \<union> B"
        by (rule ih_rest, rule "4.IH"(4)[OF False Dir dist wfs "4.prems"(3)])
      have "getFilesRecursively_entries ws ((name, n) # entries) dirPath ignorePatterns results
              currentDepth maxDepth =
            getFilesRecursively_entries ws entries dirPath ignorePatterns ?rs
                   currentDepth maxDepth"
        using False Dir by simp
      then show ?thesis using a b c by (intro goal) (simp add: Un_assoc)
    next
      case (File c)
      let ?rs = "results @ [dirPath @ [name]]"
      have b: "A = {dirPath @ [name]}"
        unfolding A_def P_def using File ni "4.prems"(3) by auto
      have c: "set (getFilesRecursively_entries ws entries dirPath ignorePatterns ?rs
                   currentDepth maxDepth) = set ?rs \<union> B"
        by (rule ih_rest, rule "4.IH"(2)[OF False File dist wfs "4.prems"(3)])
      have "getFilesRecursively_entries ws ((name, n) # entries) dirPath ignorePatterns results
              currentDepth maxDepth =
            getFilesRecursively_entries ws entries dirPath ignorePatterns ?rs
                   currentDepth maxDepth"
        using False File by simp
      then show ?thesis using b c by (intro goal) (simp add: Un_assoc)
    qed
  qed
qed

lemma getFilesRecursively_set:
  assumes "wellFormed fs"
  shows "set (getFilesRecursively ws fs dirPath pats) =
     {dirPath @ q |q. readFileSync fs (dirPath @ q) \<noteq> None \<and> q \<noteq> [] \<and>
        \<not> pathIgnored ws pats (dirPath @ q) \<and> length q \<le> 101}"
proof (cases "lookup fs dirPath")
  case None
  then have "readFileSync fs (dirPath @ q) = None" for q
    by (simp add: readFileSync_def lookup_append)
  with None show ?thesis by (simp add: getFilesRecursively_def)
next
  case (Some n)
  then have wf: "wellFormed n" using assms wellFormed_lookup by blast
  have r: "readFileSync fs (dirPath @ q) = readFileSync n q" for q
    using Some by (simp add: readFileSync_def lookup_append)
  show ?thesis
    using getFilesRecursively_sets(1)[OF wf, of ws dirPath pats "[]" 0 100] Some
    by (auto simp: getFilesRecursively_def r)
qed


subsection \<open>Removing the listed files\<close>

lemma readFileSync_remove_all:
  "\<forall>p\<in>set ps. p \<noteq> [] \<Longrightarrow>
   readFileSync (foldl (\<lambda>fs f. remove f fs) fs ps) q =
     (if \<exists>p\<in>set ps. prefix p q then None else readFileSync fs q)"
proof (induction ps arbitrary: fs)
  case Nil
  then show ?case by simp
next
  case (Cons p ps)
  then have p: "p \<noteq> []" and ps: "\<forall>p\<in>set ps. p \<noteq> []" by simp_all
  have "readFileSync (foldl (\<lambda>fs f. remove f fs) (remove p fs) ps) q =
     (if \<exists>p\<in>set ps. prefix p q then None else readFileSync (remove p fs) q)"
    by (rule Cons.IH[OF ps])
  then show ?case using p by (simp add: readFileSync_remove)
qed

lemma isDirectory_remove_all:
  "\<forall>p\<in>set ps. p \<noteq> [] \<Longrightarrow>
   isDirectory (foldl (\<lambda>fs f. remove f fs) fs ps) q =
     (isDirectory fs q \<and> \<not> (\<exists>p\<in>set ps. prefix p q))"
proof (induction ps arbitrary: fs)
  case Nil
  then show ?case by simp
next
  case (Cons p ps)
  then have p: "p \<noteq> []" and ps: "\<forall>p\<in>set ps. p \<noteq> []" by simp_all
  have "isDirectory (foldl (\<lambda>fs f. remove f fs) (remove p fs) ps) q =
     (isDirectory (remove p fs) q \<and> \<not> (\<exists>p\<in>set ps. prefix p q))"
    by (rule Cons.IH[OF ps])
  then show ?case using p by (simp add: isDirectory_remove)
qed

lemma wellFormed_remove_all:
  "wellFormed fs \<Longrightarrow> wellFormed (foldl (\<lambda>fs f. remove f fs) fs ps)"
  by (induction ps arbitrary: fs) (simp_all add: wellFormed_remove)

lemma file_prefix_of_file:
  assumes "readFileSync fs p = Some c" "prefix p q" "readFileSync fs q \<noteq> None \<or> isDirectory fs q"
  shows "q = p"
proof (rule ccontr)
  assume "q \<noteq> p"
  with assms(2) obtain r where r: "q = p @ r" "r \<noteq> []" by (auto simp: prefix_def)
  have "lookup fs (p @ r) = None" by (rule file_has_no_children[OF assms(1) r(2)])
  with assms(3) r(1) show False by (simp add: readFileSync_def isDirectory_def)
qed

subsection \<open>One copy\<close>

lemma strict_prefix_butlast: "dst \<noteq> [] \<Longrightarrow> prefix q (butlast dst) \<longleftrightarrow> strict_prefix q dst"
proof (cases dst rule: rev_cases)
  case Nil
  assume "dst \<noteq> []"
  with Nil show ?thesis by simp
next
  case (snoc ys y)
  have "prefix q ys \<Longrightarrow> q \<noteq> ys @ [y]"
    using prefix_length_le by fastforce
  with snoc show ?thesis by (auto simp: strict_prefix_def)
qed

lemma copyFileWithRetry_stream_first:
  "0 \<le> maxRetries \<Longrightarrow> attempt s = (True, s') \<Longrightarrow>
   copyFileWithRetry_stream attempt maxRetries s = (True, [Attempt], s')"
  by (simp add: copyFileWithRetry_stream_def copyFileWithRetry_stream_loop_unfold)

lemma unlink_existing:
  assumes "\<not> isDirectory fs dst" "dst \<noteq> []"
  shows "\<exists>fs1. (if existsSync fs dst then unlinkSync dst fs else Some fs) = Some fs1 \<and>
           (\<forall>q. readFileSync fs1 q = (if q = dst then None else readFileSync fs q)) \<and>
           (\<forall>q. isDirectory fs1 q = isDirectory fs q)"
proof (cases "lookup fs dst")
  case None
  then have "readFileSync fs dst = None" by (simp add: readFileSync_def)
  with None show ?thesis by (auto simp: existsSync_def)
next
  case (Some n)
  with assms(1) obtain c where c: "lookup fs dst = Some (File c)"
    by (cases n) (auto simp: isDirectory_def)
  then have f: "readFileSync fs dst = Some c" by (simp add: readFileSync_def)
  have u: "(if existsSync fs dst then unlinkSync dst fs else Some fs) = Some (remove dst fs)"
    using c assms(2) by (simp add: existsSync_def unlinkSync_def)
  have r: "readFileSync (remove dst fs) q = (if q = dst then None else readFileSync fs q)" for q
  proof (cases "prefix dst q")
    case True
    show ?thesis
    proof (cases "q = dst")
      case True
      then show ?thesis using assms(2) by (simp add: readFileSync_remove)
    next
      case False
      with True f have "readFileSync fs q = None"
        using file_prefix_of_file by blast
      with True False assms(2) show ?thesis by (simp add: readFileSync_remove)
    qed
  next
    case False
    then have "q \<noteq> dst" by auto
    with False assms(2) show ?thesis by (simp add: readFileSync_remove)
  qed
  have d: "isDirectory (remove dst fs) q = isDirectory fs q" for q
  proof (cases "prefix dst q")
    case True
    have "\<not> isDirectory fs q"
    proof
      assume "isDirectory fs q"
      with f True have "q = dst" using file_prefix_of_file by blast
      with assms(1) \<open>isDirectory fs q\<close> show False by simp
    qed
    with True assms(2) show ?thesis by (simp add: isDirectory_remove)
  next
    case False
    with assms(2) show ?thesis by (simp add: isDirectory_remove)
  qed
  from u r d show ?thesis by blast
qed

lemma write_after_ensureDir:
  assumes "dst \<noteq> []" "\<not> isDirectory fs dst"
    and "\<forall>q. strict_prefix q dst \<longrightarrow> readFileSync fs q = None"
  shows "\<exists>fs2 fs3. ensureDirSync (butlast dst) fs = Some fs2 \<and> writeFileSync dst c fs2 = Some fs3 \<and>
           (\<forall>q. readFileSync fs2 q = readFileSync fs q) \<and>
           (\<forall>q. readFileSync fs3 q = (if q = dst then Some c else readFileSync fs q)) \<and>
           (\<forall>q. isDirectory fs3 q = (isDirectory fs q \<or> strict_prefix q dst))"
proof -
  have "\<forall>q. prefix q (butlast dst) \<longrightarrow> readFileSync fs q = None"
    using assms(1,3) by (simp add: strict_prefix_butlast)
  then have "ensureDirSync (butlast dst) fs \<noteq> None"
    by (simp only: ensureDirSync_Some_iff)
  then obtain fs2 where fs2: "ensureDirSync (butlast dst) fs = Some fs2" by blast
  have r2: "readFileSync fs2 q = readFileSync fs q" for q
    using fs2 by (rule readFileSync_ensureDir)
  have d2: "isDirectory fs2 q = (isDirectory fs q \<or> strict_prefix q dst)" for q
    using isDirectory_ensureDir[OF fs2, of q] assms(1) by (simp add: strict_prefix_butlast)
  have "isDirectory fs2 (butlast dst)"
    using isDirectory_ensureDir[OF fs2, of "butlast dst"] by simp
  moreover have "\<not> isDirectory fs2 dst" using d2[of dst] assms(2) by simp
  ultimately have "writeFileSync dst c fs2 \<noteq> None"
    using assms(1) writeFileSync_Some_iff by blast
  then obtain fs3 where fs3: "writeFileSync dst c fs2 = Some fs3" by blast
  have r3: "readFileSync fs3 q = (if q = dst then Some c else readFileSync fs q)" for q
    using readFileSync_write[OF fs3, of q] r2 by simp
  have d3: "isDirectory fs3 q = (isDirectory fs q \<or> strict_prefix q dst)" for q
    using isDirectory_write[OF fs3, of q] d2 by simp
  from fs2 fs3 r2 r3 d3 show ?thesis by blast
qed

lemma streamCopyAttempt_copies:
  assumes "readFileSync fs src = Some c" "dst \<noteq> []" "src \<noteq> dst" "\<not> isDirectory fs dst"
    and "\<forall>q. strict_prefix q dst \<longrightarrow> readFileSync fs q = None"
  shows "\<exists>fs'. streamCopyAttempt src dst fs = (True, fs') \<and> copiedTo fs dst c fs'"
proof -
  from unlink_existing[OF assms(4,2)] obtain fs1 where
    u: "(if existsSync fs dst then unlinkSync dst fs else Some fs) = Some fs1"
    and r1: "\<And>q. readFileSync fs1 q = (if q = dst then None else readFileSync fs q)"
    and d1: "\<And>q. isDirectory fs1 q = isDirectory fs q"
    by blast
  have "\<not> isDirectory fs1 dst" using d1 assms(4) by simp
  moreover have "\<forall>q. strict_prefix q dst \<longrightarrow> readFileSync fs1 q = None"
    using r1 assms(5) by simp
  ultimately obtain fs2 fs3 where
    e: "ensureDirSync (butlast dst) fs1 = Some fs2" and w: "writeFileSync dst c fs2 = Some fs3"
    and r2: "\<And>q. readFileSync fs2 q = readFileSync fs1 q"
    and r3: "\<And>q. readFileSync fs3 q = (if q = dst then Some c else readFileSync fs1 q)"
    and d3: "\<And>q. isDirectory fs3 q = (isDirectory fs1 q \<or> strict_prefix q dst)"
    using write_after_ensureDir[OF assms(2), of fs1 c] by blast
  have src: "readFileSync fs2 src = Some c" using r2 r1 assms(1,3) by simp
  have ex: "existsSync fs3 dst"
    using r3[of dst] by (auto simp: existsSync_def readFileSync_def split: option.splits)
  have "streamCopyAttempt src dst fs = (True, fs3)"
    unfolding streamCopyAttempt_def using u e w src ex by simp
  moreover have "copiedTo fs dst c fs3"
    unfolding copiedTo_def using r3 r1 d3 d1 by simp
  ultimately show ?thesis by blast
qed

lemma captureFile_copies:
  assumes "readFileSync fs file = Some c" "file \<noteq> snapshotDir @ file"
    and "\<not> isDirectory fs (snapshotDir @ file)"
    and "\<forall>q. strict_prefix q (snapshotDir @ file) \<longrightarrow> readFileSync fs q = None"
    and "file \<noteq> []"
  shows "\<exists>fs'. captureFile snapshotDir file (fs, n, e, log) =
           (fs', n + 1, e, log @ [CopyAttempted file (snapshotDir @ file) True]) \<and>
         copiedTo fs (snapshotDir @ file) c fs'"
proof -
  have ne: "snapshotDir @ file \<noteq> []" using assms(5) by simp
  obtain fs2 fs3 where
    e: "ensureDirSync (butlast (snapshotDir @ file)) fs = Some fs2"
    and w: "writeFileSync (snapshotDir @ file) c fs2 = Some fs3"
    and r2: "\<And>q. readFileSync fs2 q = readFileSync fs q"
    and r3: "\<And>q. readFileSync fs3 q = (if q = snapshotDir @ file then Some c else readFileSync fs q)"
    and d3: "\<And>q. isDirectory fs3 q = (isDirectory fs q \<or> strict_prefix q (snapshotDir @ file))"
    using write_after_ensureDir[OF ne assms(3,4), of c] by blast
  have "copyFileSync file (snapshotDir @ file) fs2 = Some fs3"
    using r2 assms(1) w by (simp add: copyFileSync_def)
  with e have "captureFile snapshotDir file (fs, n, e, log) =
           (fs3, n + 1, e, log @ [CopyAttempted file (snapshotDir @ file) True])"
    by (simp add: captureFile_def Let_def)
  moreover have "copiedTo fs (snapshotDir @ file) c fs3"
    unfolding copiedTo_def using r3 d3 by simp
  ultimately show ?thesis by blast
qed

subsection \<open>The copy loops\<close>

lemma strict_prefix_same_append [simp]:
  "strict_prefix (a @ x) (a @ y) \<longleftrightarrow> strict_prefix x y"
  by (simp add: strict_prefix_def)

lemma restoreFile_copies:
  assumes "0 \<le> maxRetries" "readFileSync fs (snapshotDir @ r) = Some c"
    and "r \<noteq> []" "r \<noteq> [manifestName]" "r \<noteq> [''.vibesync-base'']" "snapshotDir @ r \<noteq> r"
    and "\<not> isDirectory fs r" "\<forall>q. strict_prefix q r \<longrightarrow> readFileSync fs q = None"
  shows "\<exists>fs'. restoreFile maxRetries snapshotDir (snapshotDir @ r) (fs, n, e) = (fs', n + 1, e) \<and>
           copiedTo fs r c fs'"
proof -
  from streamCopyAttempt_copies[OF assms(2,3,6,7,8)] obtain fs' where
    a: "streamCopyAttempt (snapshotDir @ r) r fs = (True, fs')" and c: "copiedTo fs r c fs'"
    by blast
  have "copyFileWithRetry_stream (streamCopyAttempt (snapshotDir @ r) r) maxRetries fs =
          (True, [Attempt], fs')"
    using assms(1) a by (rule copyFileWithRetry_stream_first)
  then have "restoreFile maxRetries snapshotDir (snapshotDir @ r) (fs, n, e) = (fs', n + 1, e)"
    using assms(4,5) by (simp add: restoreFile_def Let_def)
  with c show ?thesis by blast
qed

lemma restore_copy_loop:
  assumes "0 \<le> maxRetries"
    and "\<forall>r\<in>set rels. readFileSync fs (snapshotDir @ r) = Some (cont r)"
    and "\<forall>r\<in>set rels. r \<noteq> [] \<and> r \<noteq> [manifestName] \<and> r \<noteq> [''.vibesync-base'']"
    and "\<forall>r\<in>set rels. \<forall>r'\<in>set rels. snapshotDir @ r \<noteq> r' \<and> \<not> strict_prefix r r'"
    and "\<forall>r\<in>set rels. \<not> isDirectory fs r"
    and "\<forall>r\<in>set rels. \<forall>q. strict_prefix q r \<longrightarrow> readFileSync fs q = None"
  shows "\<exists>fs'. foldl (\<lambda>acc file. restoreFile maxRetries snapshotDir file acc) (fs, n, e)
                 (map ((@) snapshotDir) rels) = (fs', n + length rels, e) \<and>
           (\<forall>q. readFileSync fs' q = (if q \<in> set rels then Some (cont q) else readFileSync fs q)) \<and>
           (\<forall>q. isDirectory fs' q = (isDirectory fs q \<or> (\<exists>r\<in>set rels. strict_prefix q r)))"
  using assms(2-6)
proof (induction rels arbitrary: fs n)
  case Nil
  then show ?case by simp
next
  case (Cons r0 rels)
  have r0: "readFileSync fs (snapshotDir @ r0) = Some (cont r0)" "r0 \<noteq> []"
    "r0 \<noteq> [manifestName]" "r0 \<noteq> [''.vibesync-base'']" "snapshotDir @ r0 \<noteq> r0"
    "\<not> isDirectory fs r0" "\<forall>q. strict_prefix q r0 \<longrightarrow> readFileSync fs q = None"
    using Cons.prems by simp_all
  from restoreFile_copies[OF assms(1) r0, of n e] obtain fs1 where
    step: "restoreFile maxRetries snapshotDir (snapshotDir @ r0) (fs, n, e) = (fs1, n + 1, e)"
    and c: "copiedTo fs r0 (cont r0) fs1" by blast
  from c have rd: "\<And>q. readFileSync fs1 q = (if q = r0 then Some (cont r0) else readFileSync fs q)"
    and dr: "\<And>q. isDirectory fs1 q = (isDirectory fs q \<or> strict_prefix q r0)"
    by (simp_all add: copiedTo_def)
  have p1: "\<forall>r\<in>set rels. readFileSync fs1 (snapshotDir @ r) = Some (cont r)"
    using Cons.prems(1,3) rd by simp
  have p2: "\<forall>r\<in>set rels. r \<noteq> [] \<and> r \<noteq> [manifestName] \<and> r \<noteq> [''.vibesync-base'']"
    using Cons.prems(2) by simp
  have p3: "\<forall>r\<in>set rels. \<forall>r'\<in>set rels. snapshotDir @ r \<noteq> r' \<and> \<not> strict_prefix r r'"
    using Cons.prems(3) by simp
  have p4: "\<forall>r\<in>set rels. \<not> isDirectory fs1 r"
    using Cons.prems(3,4) dr by simp
  have p5: "\<forall>r\<in>set rels. \<forall>q. strict_prefix q r \<longrightarrow> readFileSync fs1 q = None"
  proof (intro ballI allI impI)
    fix r q assume r: "r \<in> set rels" and q: "strict_prefix q r"
    then have "q \<noteq> r0" using Cons.prems(3) by auto
    then show "readFileSync fs1 q = None" using rd r q Cons.prems(5) by simp
  qed
  from Cons.IH[OF p1 p2 p3 p4 p5, of "n + 1"] obtain fs' where
    ih: "foldl (\<lambda>acc file. restoreFile maxRetries snapshotDir file acc) (fs1, n + 1, e)
                 (map ((@) snapshotDir) rels) = (fs', n + 1 + length rels, e)"
      "\<And>q. readFileSync fs' q = (if q \<in> set rels then Some (cont q) else readFileSync fs1 q)"
      "\<And>q. isDirectory fs' q = (isDirectory fs1 q \<or> (\<exists>r\<in>set rels. strict_prefix q r))"
    by blast
  have "foldl (\<lambda>acc file. restoreFile maxRetries snapshotDir file acc) (fs, n, e)
                 (map ((@) snapshotDir) (r0 # rels)) = (fs', n + length (r0 # rels), e)"
    using step ih(1) by simp
  moreover have "\<forall>q. readFileSync fs' q =
        (if q \<in> set (r0 # rels) then Some (cont q) else readFileSync fs q)"
    using ih(2) rd by simp
  moreover have "\<forall>q. isDirectory fs' q =
        (isDirectory fs q \<or> (\<exists>r\<in>set (r0 # rels). strict_prefix q r))"
    using ih(3) dr by auto
  ultimately show ?case by blast
qed

lemma capture_copy_loop:
  assumes "\<forall>r\<in>set rels. readFileSync fs r = Some (cont r)"
    and "\<forall>r\<in>set rels. r \<noteq> []"
    and "\<forall>r\<in>set rels. \<forall>r'\<in>set rels. r \<noteq> snapshotDir @ r' \<and> \<not> strict_prefix r r'"
    and "\<forall>r\<in>set rels. \<not> isDirectory fs (snapshotDir @ r)"
    and "\<forall>r\<in>set rels. \<forall>q. strict_prefix q (snapshotDir @ r) \<longrightarrow> readFileSync fs q = None"
  shows "\<exists>fs' log'. foldl (\<lambda>acc file. captureFile snapshotDir file acc) (fs, n, e, log) rels =
              (fs', n + length rels, e, log') \<and>
           (\<forall>q. readFileSync fs' q =
              (if q \<in> (@) snapshotDir ` set rels then Some (cont (drop (length snapshotDir) q))
               else readFileSync fs q)) \<and>
           (\<forall>q. isDirectory fs' q =
              (isDirectory fs q \<or> (\<exists>r\<in>set rels. strict_prefix q (snapshotDir @ r))))"
  using assms
proof (induction rels arbitrary: fs n log)
  case Nil
  then show ?case by simp
next
  case (Cons r0 rels)
  have r0: "readFileSync fs r0 = Some (cont r0)" "r0 \<noteq> snapshotDir @ r0"
    "\<not> isDirectory fs (snapshotDir @ r0)"
    "\<forall>q. strict_prefix q (snapshotDir @ r0) \<longrightarrow> readFileSync fs q = None" "r0 \<noteq> []"
    using Cons.prems by simp_all
  from captureFile_copies[OF r0, of n e log] obtain fs1 where
    step: "captureFile snapshotDir r0 (fs, n, e, log) =
             (fs1, n + 1, e, log @ [CopyAttempted r0 (snapshotDir @ r0) True])"
    and c: "copiedTo fs (snapshotDir @ r0) (cont r0) fs1" by blast
  from c have rd: "\<And>q. readFileSync fs1 q =
        (if q = snapshotDir @ r0 then Some (cont r0) else readFileSync fs q)"
    and dr: "\<And>q. isDirectory fs1 q = (isDirectory fs q \<or> strict_prefix q (snapshotDir @ r0))"
    by (simp_all add: copiedTo_def)
  have p1: "\<forall>r\<in>set rels. readFileSync fs1 r = Some (cont r)"
    using Cons.prems(1,3) rd by simp
  have p2: "\<forall>r\<in>set rels. r \<noteq> []" using Cons.prems(2) by simp
  have p3: "\<forall>r\<in>set rels. \<forall>r'\<in>set rels. r \<noteq> snapshotDir @ r' \<and> \<not> strict_prefix r r'"
    using Cons.prems(3) by simp
  have p4: "\<forall>r\<in>set rels. \<not> isDirectory fs1 (snapshotDir @ r)"
    using Cons.prems(3,4) dr by simp
  have p5: "\<forall>r\<in>set rels. \<forall>q. strict_prefix q (snapshotDir @ r) \<longrightarrow> readFileSync fs1 q = None"
  proof (intro ballI allI impI)
    fix r q assume r: "r \<in> set rels" and q: "strict_prefix q (snapshotDir @ r)"
    have "q \<noteq> snapshotDir @ r0"
    proof
      assume "q = snapshotDir @ r0"
      with q have "strict_prefix r0 r" by simp
      with r Cons.prems(3) show False by simp
    qed
    then show "readFileSync fs1 q = None" using rd r q Cons.prems(5) by simp
  qed
  from Cons.IH[OF p1 p2 p3 p4 p5, of "n + 1" "log @ [CopyAttempted r0 (snapshotDir @ r0) True]"]
  obtain fs' log' where
    ih: "foldl (\<lambda>acc file. captureFile snapshotDir file acc)
           (fs1, n + 1, e, log @ [CopyAttempted r0 (snapshotDir @ r0) True]) rels =
           (fs', n + 1 + length rels, e, log')"
      "\<And>q. readFileSync fs' q =
              (if q \<in> (@) snapshotDir ` set rels then Some (cont (drop (length snapshotDir) q))
               else readFileSync fs1 q)"
      "\<And>q. isDirectory fs' q =
              (isDirectory fs1 q \<or> (\<exists>r\<in>set rels. strict_prefix q (snapshotDir @ r)))"
    by blast
  have "foldl (\<lambda>acc file. captureFile snapshotDir file acc) (fs, n, e, log) (r0 # rels) =
              (fs', n + length (r0 # rels), e, log')"
    using step ih(1) by simp
  moreover have "\<forall>q. readFileSync fs' q =
              (if q \<in> (@) snapshotDir ` set (r0 # rels)
               then Some (cont (drop (length snapshotDir) q)) else readFileSync fs q)"
    using ih(2) rd by auto
  moreover have "\<forall>q. isDirectory fs' q =
              (isDirectory fs q \<or> (\<exists>r\<in>set (r0 # rels). strict_prefix q (snapshotDir @ r)))"
    using ih(3) dr by auto
  ultimately show ?case by blast
qed

subsection \<open>The batches\<close>

lemma restoreBatches_all:
  assumes "\<forall>k. \<not> cancel k" "0 < bs" "length files \<le> tb * bs"
  shows "restoreBatches cancel mr sd files bs tb i acc =
           (True, foldl (\<lambda>acc file. restoreFile mr sd file acc) acc (drop (i * bs) files))"
proof (induction "tb - i" arbitrary: i acc)
  case 0
  then have "tb \<le> i" by simp
  then have "tb * bs \<le> i * bs" by (rule mult_le_mono1)
  with assms(3) have "length files \<le> i * bs" by (rule le_trans)
  then have "drop (i * bs) files = []" by simp
  with \<open>tb \<le> i\<close> show ?case by (subst restoreBatches.simps) simp
next
  case (Suc n)
  then have lt: "i < tb" and n: "n = tb - Suc i" by simp_all
  let ?f = "\<lambda>acc file. restoreFile mr sd file acc"
  let ?xs = "drop (i * bs) files"
  have take: "take (min ((i + 1) * bs) (length files) - i * bs) ?xs = take bs ?xs"
  proof (cases "(i + 1) * bs \<le> length files")
    case True
    then show ?thesis by (simp add: min_def)
  next
    case False
    then have "length ?xs \<le> bs" by simp
    moreover have "min ((i + 1) * bs) (length files) - i * bs = length ?xs"
      using False by (simp add: min_def)
    ultimately show ?thesis by simp
  qed
  have drop: "drop (Suc i * bs) files = drop bs ?xs"
    by (simp add: add.commute)
  have e1: "restoreBatches cancel mr sd files bs tb i acc =
          restoreBatches cancel mr sd files bs tb (Suc i) (foldl ?f acc (take bs ?xs))"
    using lt assms(1) take by (subst restoreBatches.simps) (simp add: Let_def)
  have e2: "restoreBatches cancel mr sd files bs tb (Suc i) (foldl ?f acc (take bs ?xs)) =
          (True, foldl ?f (foldl ?f acc (take bs ?xs)) (drop bs ?xs))"
    using Suc.hyps(1)[OF n, of "foldl ?f acc (take bs ?xs)"] unfolding drop .
  have e3: "foldl ?f (foldl ?f acc (take bs ?xs)) (drop bs ?xs) = foldl ?f acc ?xs"
    by (metis append_take_drop_id foldl_append)
  show ?case unfolding e1 e2 e3 ..
qed

lemma ceil_div_covers: "0 < (bs::nat) \<Longrightarrow> n \<le> ((n + bs - 1) div bs) * bs"
proof -
  assume bs: "0 < bs"
  have "n + bs - 1 = ((n + bs - 1) div bs) * bs + (n + bs - 1) mod bs" by simp
  moreover have "(n + bs - 1) mod bs < bs" using bs by simp
  ultimately show ?thesis by linarith
qed

lemma batchSize_pos: "0 < batchSize n"
  by (simp add: batchSize_def)

subsection \<open>Patterns and the text of a path\<close>

lemma sublist_across_slash:
  assumes "CHR ''/'' \<notin> set p"
  shows "sublist p (a @ CHR ''/'' # b) \<longleftrightarrow> sublist p a \<or> sublist p b"
proof
  assume "sublist p (a @ CHR ''/'' # b)"
  then consider "sublist p a" | "sublist p (CHR ''/'' # b)"
    | xs1 xs2 where "p = xs1 @ xs2" "suffix xs1 a" "prefix xs2 (CHR ''/'' # b)"
    by (auto simp: sublist_append)
  then show "sublist p a \<or> sublist p b"
  proof cases
    case 1
    then show ?thesis by simp
  next
    case 2
    then have "prefix p (CHR ''/'' # b) \<or> sublist p b" by (simp add: sublist_Cons_right)
    moreover have "prefix p (CHR ''/'' # b) \<Longrightarrow> p = []"
      using assms by (cases p) auto
    ultimately show ?thesis by auto
  next
    case 3
    have "xs2 = []" using 3(1,3) assms by (cases xs2) auto
    with 3 show ?thesis by auto
  qed
next
  assume "sublist p a \<or> sublist p b"
  then show "sublist p (a @ CHR ''/'' # b)"
    by (auto simp: sublist_append sublist_Cons_right)
qed

lemma renderPath_Cons:
  "renderPath ws (name # p) = ws @ CHR ''/'' # name @ concat (map (\<lambda>name. CHR ''/'' # name) p)"
  by (simp add: renderPath_def)

lemma tail_text:
  "p \<noteq> [] \<Longrightarrow> \<exists>t. concat (map (\<lambda>name. CHR ''/'' # name) p) = CHR ''/'' # t"
  by (cases p) auto

lemma toLowerCase_not_dot: "c \<noteq> CHR ''.'' \<Longrightarrow> toLowerCase c \<noteq> CHR ''.''"
proof (cases "map_of (zip ''ABCDEFGHIJKLMNOPQRSTUVWXYZ'' ''abcdefghijklmnopqrstuvwxyz'') c")
  case None
  assume "c \<noteq> CHR ''.''"
  with None show ?thesis by (simp add: toLowerCase_def)
next
  case (Some l)
  then have "l \<in> set ''abcdefghijklmnopqrstuvwxyz''"
    by (meson map_of_SomeD set_zip_rightD)
  then have "l \<noteq> CHR ''.''" by auto
  with Some show ?thesis by (simp add: toLowerCase_def)
qed

lemma sanitizeChar_not_dot: "sanitizeChar c \<noteq> CHR ''.''"
proof (cases "c \<in> set ''abcdefghijklmnopqrstuvwxyzABCDEFGHIJKLMNOPQRSTUVWXYZ0123456789-_''")
  case True
  then have "c \<noteq> CHR ''.''" by auto
  with True show ?thesis using toLowerCase_not_dot by (simp add: sanitizeChar_def)
next
  case False
  then show ?thesis by (simp add: sanitizeChar_def)
qed

lemma digit_not_dot: "k < 10 \<Longrightarrow> ''0123456789'' ! k \<noteq> CHR ''.''"
proof -
  assume "k < 10"
  then have "''0123456789'' ! k \<in> set ''0123456789''" by (intro nth_mem) simp
  then show ?thesis by auto
qed

lemma decimal_no_dot: "CHR ''.'' \<notin> set (decimal n)"
proof (induction n rule: decimal.induct)
  case (1 n)
  show ?case
  proof (cases "n < 10")
    case True
    then show ?thesis using digit_not_dot[of n] by (subst decimal.simps) simp
  next
    case False
    have "n mod 10 < 10" by simp
    then have "''0123456789'' ! (n mod 10) \<noteq> CHR ''.''" by (rule digit_not_dot)
    with False "1.IH" show ?thesis by (subst decimal.simps) simp
  qed
qed

lemma snapshotId_no_dot: "CHR ''.'' \<notin> set (snapshotId name timestamp)"
proof -
  have "CHR ''.'' \<notin> set (map sanitizeChar name)"
    using sanitizeChar_not_dot by (metis (no_types) image_iff set_map)
  then show ?thesis using decimal_no_dot[of timestamp] by (simp add: snapshotId_def)
qed

subsection \<open>What a capture leaves in the store\<close>

lemma isDirectory_prefix:
  assumes "isDirectory n (p @ q)"
  shows "isDirectory n p"
proof (cases "lookup n p")
  case None
  with assms show ?thesis by (simp add: isDirectory_def lookup_append)
next
  case (Some n')
  show ?thesis
  proof (cases n')
    case (File c)
    with Some assms show ?thesis
      by (cases "q = []") (simp_all add: isDirectory_def lookup_append)
  next
    case (Dir es)
    with Some show ?thesis by (simp add: isDirectory_def)
  qed
qed

lemma nothing_below_missing:
  "lookup n p = None \<Longrightarrow> readFileSync n (p @ q) = None \<and> \<not> isDirectory n (p @ q)"
  by (simp add: readFileSync_def isDirectory_def lookup_append)

lemma named_vibesync_ignored:
  assumes "''.vibesync'' \<in> set E" "sublist ''.vibesync'' name"
  shows "pathIgnored ws E (p @ name # q)"
proof -
  have "renderPath ws (p @ name # q) =
          (renderPath ws p @ [CHR ''/'']) @ name @ concat (map (\<lambda>name. CHR ''/'' # name) q)"
    by (simp add: renderPath_append)
  moreover have "sublist name ((renderPath ws p @ [CHR ''/'']) @ name @
                    concat (map (\<lambda>name. CHR ''/'' # name) q))"
    by (rule sublist_appendI)
  ultimately have "sublist name (renderPath ws (p @ name # q))" by simp
  with assms(2) have "sublist ''.vibesync'' (renderPath ws (p @ name # q))"
    by (rule sublist_order.order_trans)
  with assms(1) show ?thesis by (auto simp: pathIgnored_def list_ex_iff)
qed

lemma vibesync_in_defaults: "''.vibesync'' \<in> set (defaultIgnorePatterns @ custom)"
  by (simp add: defaultIgnorePatterns_def)

lemma manifestName_vibesync: "sublist ''.vibesync'' manifestName"
  by (simp add: manifestName_def sublist_code)

lemma base_vibesync: "sublist ''.vibesync'' ''.vibesync-base''"
  by (simp add: sublist_code)

lemma self_vibesync: "sublist ''.vibesync'' ''.vibesync''"
  by simp

lemma capture_result:
  fixes st :: vibe and T :: node and cq :: capture_request and ws :: string
  defines "sid \<equiv> snapshotId (capture_name cq) (capture_timestamp cq)"
  defines "E \<equiv> defaultIgnorePatterns @ capture_customIgnores cq"
  assumes ws: "workspaceInfo st = Some ws" and wf: "wellFormed T"
    and vd: "isDirectory T vibeDir" and fresh: "\<not> existsSync T (vibeDir @ [sid])"
  shows "\<exists>st' T' counts log m.
           takeSimpleSnapshot_run st T cq = (Success, st', T', counts, log) \<and>
           workspaceInfo st' = Some ws \<and> isRestoreInProgress st' = isRestoreInProgress st \<and>
           lastOperation st' = lastOperation st \<and>
           readManifest T' (vibeDir @ [sid, manifestName]) = Some m \<and>
           manifest_ignorePatterns m = Some E \<and>
           (\<forall>r. readFileSync T' (vibeDir @ sid # r) =
              (if r \<in> set (getFilesRecursively ws T [] E) then readFileSync T r
               else if r = [manifestName] then Some (ManifestJson m) else None))"
proof -
  let ?dir = "vibeDir @ [sid]"
  let ?mp = "?dir @ [manifestName]"
  define m where "m = \<lparr> manifest_id = sid, manifest_name = capture_name cq,
      manifest_description = orUndefined (capture_description cq),
      manifest_timestamp = int (capture_timestamp cq), manifest_tags = capture_tags cq,
      manifest_workspacePath = ws, manifest_ignorePatterns = Some E \<rparr>"
  have vE: "''.vibesync'' \<in> set E" unfolding E_def by (rule vibesync_in_defaults)
  have missing: "lookup T ?dir = None" using fresh by (simp add: existsSync_def)
  have below: "readFileSync T (?dir @ q) = None \<and> \<not> isDirectory T (?dir @ q)" for q
    by (rule nothing_below_missing[OF missing])
  have rootdir: "isDirectory T []" using isDirectory_prefix[of T "[]" vibeDir] vd by simp
  have nofile_root: "readFileSync T [] = None"
    using rootdir by (auto simp: isDirectory_def readFileSync_def split: option.splits node.splits)
  have nofile_vd: "readFileSync T vibeDir = None"
    using vd by (auto simp: isDirectory_def readFileSync_def split: option.splits node.splits)
  \<comment> \<open>the snapshot directory is made\<close>
  have pre: "\<forall>q. prefix q ?dir \<longrightarrow> readFileSync T q = None"
  proof (intro allI impI)
    fix q assume "prefix q ?dir"
    then have "q = [] \<or> q = vibeDir \<or> q = ?dir"
      by (auto simp: vibeDir_def prefix_Cons prefix_def Cons_eq_append_conv)
    then show "readFileSync T q = None"
      using nofile_root nofile_vd below[of "[]"] by auto
  qed
  then have "ensureDirSync ?dir T \<noteq> None" by (simp only: ensureDirSync_Some_iff)
  then obtain fs1 where fs1: "ensureDirSync ?dir T = Some fs1" by blast
  have r1: "readFileSync fs1 q = readFileSync T q" for q
    using fs1 by (rule readFileSync_ensureDir)
  have d1: "isDirectory fs1 q = (isDirectory T q \<or> prefix q ?dir)" for q
    using fs1 by (rule isDirectory_ensureDir)
  have wf1: "wellFormed fs1" using wf fs1 by (rule wellFormed_ensureDir)
  \<comment> \<open>the manifest is written\<close>
  have "isDirectory fs1 (butlast ?mp)" using d1[of ?dir] by (simp add: butlast_append)
  moreover have "\<not> isDirectory fs1 ?mp" using d1[of ?mp] below[of "[manifestName]"] by simp
  ultimately have "writeFileSync ?mp (ManifestJson m) fs1 \<noteq> None"
    using writeFileSync_Some_iff[of ?mp "ManifestJson m" fs1] by simp
  then obtain fs2 where fs2: "writeFileSync ?mp (ManifestJson m) fs1 = Some fs2" by blast
  have r2: "readFileSync fs2 q = (if q = ?mp then Some (ManifestJson m) else readFileSync T q)" for q
    using readFileSync_write[OF fs2, of q] r1 by simp
  have d2: "isDirectory fs2 q = (isDirectory T q \<or> prefix q ?dir)" for q
    using isDirectory_write[OF fs2, of q] d1 by simp
  have wf2: "wellFormed fs2" using wf1 fs2 by (rule wellFormed_write)
  \<comment> \<open>the walk lists the files of the tree, the store being ignored\<close>
  have ign: "pathIgnored ws E (vibeDir @ q)" for q
    using named_vibesync_ignored[OF vE self_vibesync, of ws "[]" q] by (simp add: vibeDir_def)
  let ?C = "set (getFilesRecursively ws T [] E)"
  have C: "?C = {q. readFileSync T q \<noteq> None \<and> q \<noteq> [] \<and> \<not> pathIgnored ws E q \<and> length q \<le> 101}"
    using getFilesRecursively_set[OF wf, of ws "[]" E] by simp
  have C2: "set (getFilesRecursively ws fs2 [] E) = ?C"
  proof -
    have "set (getFilesRecursively ws fs2 [] E) =
        {q. readFileSync fs2 q \<noteq> None \<and> q \<noteq> [] \<and> \<not> pathIgnored ws E q \<and> length q \<le> 101}"
      using getFilesRecursively_set[OF wf2, of ws "[]" E] by simp
    also have "\<dots> = {q. readFileSync T q \<noteq> None \<and> q \<noteq> [] \<and> \<not> pathIgnored ws E q \<and> length q \<le> 101}"
      using r2 ign[of "[sid, manifestName]"] by auto
    finally show ?thesis using C by simp
  qed
  define allFiles where "allFiles = getFilesRecursively ws fs2 [] E"
  have inC: "r \<in> set allFiles \<longleftrightarrow>
      readFileSync T r \<noteq> None \<and> r \<noteq> [] \<and> \<not> pathIgnored ws E r \<and> length r \<le> 101" for r
    unfolding allFiles_def C2 C by simp
  define cont where "cont = (\<lambda>r. the (readFileSync T r))"
  \<comment> \<open>every copy succeeds\<close>
  have q1: "\<forall>r\<in>set allFiles. readFileSync fs2 r = Some (cont r)"
  proof
    fix r assume r: "r \<in> set allFiles"
    then have "r \<noteq> ?mp" using inC ign[of "[sid, manifestName]"] by auto
    then show "readFileSync fs2 r = Some (cont r)" using r2 r inC by (auto simp: cont_def)
  qed
  have q2: "\<forall>r\<in>set allFiles. r \<noteq> []" using inC by simp
  have q3: "\<forall>r\<in>set allFiles. \<forall>r'\<in>set allFiles. r \<noteq> ?dir @ r' \<and> \<not> strict_prefix r r'"
  proof (intro ballI conjI)
    fix r r' assume r: "r \<in> set allFiles" and r': "r' \<in> set allFiles"
    show "r \<noteq> ?dir @ r'" using r inC ign[of "sid # r'"] by auto
    show "\<not> strict_prefix r r'"
    proof
      assume sp: "strict_prefix r r'"
      from r obtain c where "readFileSync T r = Some c" using inC by auto
      moreover have "prefix r r'" using sp by (simp add: strict_prefix_def)
      moreover have "readFileSync T r' \<noteq> None \<or> isDirectory T r'" using r' inC by simp
      ultimately have "r' = r" by (rule file_prefix_of_file)
      with sp show False by simp
    qed
  qed
  have q4: "\<forall>r\<in>set allFiles. \<not> isDirectory fs2 (?dir @ r)"
  proof
    fix r assume "r \<in> set allFiles"
    then have "r \<noteq> []" using inC by simp
    then have "\<not> prefix (?dir @ r) ?dir" by (simp add: prefix_def)
    then show "\<not> isDirectory fs2 (?dir @ r)" using d2 below by simp
  qed
  have q5: "\<forall>r\<in>set allFiles. \<forall>q. strict_prefix q (?dir @ r) \<longrightarrow> readFileSync fs2 q = None"
  proof (intro ballI allI impI)
    fix r q assume r: "r \<in> set allFiles" and sp: "strict_prefix q (?dir @ r)"
    have nm: "q \<noteq> ?mp"
    proof
      assume "q = ?mp"
      with sp have "strict_prefix [manifestName] r" by simp
      then obtain r' where "r = manifestName # r'" by (auto simp: strict_prefix_def prefix_def)
      then have "pathIgnored ws E r"
        using named_vibesync_ignored[OF vE manifestName_vibesync, of ws "[]" r'] by simp
      with r inC show False by simp
    qed
    have "prefix q (?dir @ r)" using sp by (simp add: strict_prefix_def)
    then have "prefix q ?dir \<or> (\<exists>q'. q = ?dir @ q')"
      using prefix_append[of q ?dir r] by blast
    then have "readFileSync T q = None" using pre below by auto
    with nm show "readFileSync fs2 q = None" using r2 by simp
  qed
  from capture_copy_loop[OF q1 q2 q3 q4 q5, of 0 0 "[ManifestWritten ?mp]"]
  obtain fs3 log3 where
    loop: "foldl (\<lambda>acc file. captureFile ?dir file acc) (fs2, 0, 0, [ManifestWritten ?mp]) allFiles =
             (fs3, 0 + length allFiles, 0, log3)"
    and r3: "\<And>q. readFileSync fs3 q =
              (if q \<in> (@) ?dir ` set allFiles then Some (cont (drop (length ?dir) q))
               else readFileSync fs2 q)"
    by blast
  \<comment> \<open>the index is saved beside the snapshot directory\<close>
  define md where "md = \<lparr> meta_id = sid, meta_name = capture_name cq,
      meta_description = orUndefined (capture_description cq),
      meta_timestamp = int (capture_timestamp cq), meta_tags = capture_tags cq \<rparr>"
  define st1 where "st1 = st\<lparr>workspaceStateMetadata := workspaceStateMetadata st @ [md]\<rparr>"
  define fs4 where "fs4 = saveWorkspaceStateMetadata st1 fs3"
  have sidne: "sid \<noteq> ''metadata.json''"
  proof
    assume "sid = ''metadata.json''"
    then have "CHR ''.'' \<in> set sid" by simp
    then show False using snapshotId_no_dot by (simp add: sid_def)
  qed
  have r4: "readFileSync fs4 (?dir @ q) = readFileSync fs3 (?dir @ q)" for q
  proof (cases "writeFileSync metadataFile (MetadataJson (workspaceStateMetadata st1)) fs3")
    case None
    then show ?thesis by (simp add: fs4_def saveWorkspaceStateMetadata_def)
  next
    case (Some fs')
    have "?dir @ q \<noteq> metadataFile" using sidne by (simp add: metadataFile_def vibeDir_def)
    then show ?thesis
      using readFileSync_write[OF Some, of "?dir @ q"] Some
      by (simp add: fs4_def saveWorkspaceStateMetadata_def)
  qed
  have run: "takeSimpleSnapshot_run st T cq =
      (Success, st1\<lparr>isSaveInProgress := False\<rparr>, fs4, (length allFiles, 0), log3 @ [MetadataPushed sid])"
    using fs1 fs2 loop ws
    by (simp add: takeSimpleSnapshot_run_def Let_def sid_def[symmetric] E_def[symmetric]
        m_def[symmetric] md_def[symmetric] st1_def[symmetric] fs4_def[symmetric]
        allFiles_def[symmetric])
  have man: "readManifest fs4 (vibeDir @ [sid, manifestName]) = Some m"
  proof -
    have "?mp \<notin> (@) ?dir ` set allFiles"
    proof
      assume "?mp \<in> (@) ?dir ` set allFiles"
      then have "[manifestName] \<in> set allFiles" by auto
      moreover have "pathIgnored ws E [manifestName]"
        using named_vibesync_ignored[OF vE manifestName_vibesync, of ws "[]" "[]"] by simp
      ultimately show False using inC by simp
    qed
    then have "readFileSync fs3 ?mp = Some (ManifestJson m)" using r3[of ?mp] r2 by simp
    then have "readFileSync fs4 ?mp = Some (ManifestJson m)" using r4[of "[manifestName]"] by simp
    then show ?thesis by (simp add: readManifest_def)
  qed
  have files: "readFileSync fs4 (vibeDir @ sid # r) =
              (if r \<in> ?C then readFileSync T r
               else if r = [manifestName] then Some (ManifestJson m) else None)" for r
  proof -
    have eq: "vibeDir @ sid # r = ?dir @ r" by simp
    have mem: "?dir @ r \<in> (@) ?dir ` set allFiles \<longleftrightarrow> r \<in> ?C"
      unfolding allFiles_def C2 by auto
    show ?thesis
    proof (cases "r \<in> ?C")
      case True
      then have "readFileSync T r = Some (cont r)" using C by (auto simp: cont_def)
      with True mem r3[of "?dir @ r"] r4[of r] show ?thesis unfolding eq by simp
    next
      case False
      then have "readFileSync fs3 (?dir @ r) = readFileSync fs2 (?dir @ r)"
        using mem r3[of "?dir @ r"] by simp
      also have "\<dots> = (if r = [manifestName] then Some (ManifestJson m) else None)"
        using r2[of "?dir @ r"] below[of r] by simp
      finally show ?thesis using False r4[of r] unfolding eq by simp
    qed
  qed
  show ?thesis
    apply (rule exI[of _ "st1\<lparr>isSaveInProgress := False\<rparr>"])
    apply (rule exI[of _ fs4])
    apply (rule exI[of _ "(length allFiles, 0)"])
    apply (rule exI[of _ "log3 @ [MetadataPushed sid]"])
    apply (rule exI[of _ m])
    using run man files ws by (simp add: st1_def m_def)
qed

subsection \<open>What a restore makes of the tracked directory\<close>

lemma snapshot_file_listed:
  assumes ni: "\<not> pathIgnored ws E r" and vE: "''.vibesync'' \<in> set E" and ne: "r \<noteq> []"
    and nodot: "CHR ''.'' \<notin> set sid"
  shows "\<not> pathIgnored ws [manifestName, ''.vibesync-base''] (vibeDir @ sid # r)"
proof
  assume "pathIgnored ws [manifestName, ''.vibesync-base''] (vibeDir @ sid # r)"
  then obtain p where p: "p = manifestName \<or> p = ''.vibesync-base''"
    and sub: "sublist p (renderPath ws (vibeDir @ sid # r))"
    by (auto simp: pathIgnored_def)
  from p have slash: "CHR ''/'' \<notin> set p" and dot: "CHR ''.'' \<in> set p"
    and len: "length p > 9" and vp: "sublist ''.vibesync'' p"
    by (auto simp: manifestName_def sublist_code)
  from tail_text[OF ne] obtain t where t: "concat (map (\<lambda>name. CHR ''/'' # name) r) = CHR ''/'' # t"
    by blast
  have rendered: "renderPath ws (vibeDir @ sid # r) =
        ws @ CHR ''/'' # (''.vibesync'' @ CHR ''/'' # (sid @ CHR ''/'' # t))"
    using t by (simp add: renderPath_def vibeDir_def)
  have rtext: "renderPath ws r = ws @ CHR ''/'' # t"
    using t by (simp add: renderPath_def)
  have nov: "\<not> sublist ''.vibesync'' (renderPath ws r)"
    using ni vE by (auto simp: pathIgnored_def list_ex_iff)
  from sub have "sublist p ws \<or> sublist p ''.vibesync'' \<or> sublist p sid \<or> sublist p t"
    unfolding rendered by (simp only: sublist_across_slash[OF slash])
  then show False
  proof (elim disjE)
    assume "sublist p ws"
    with vp have "sublist ''.vibesync'' ws" by (rule sublist_order.order_trans)
    then have "sublist ''.vibesync'' (renderPath ws r)"
      unfolding rtext by (simp add: sublist_append)
    with nov show False by simp
  next
    assume "sublist p ''.vibesync''"
    then have "length p \<le> length ''.vibesync''" by (rule sublist_length_le)
    with len show False by simp
  next
    assume "sublist p sid"
    then have "set p \<subseteq> set sid" by (rule set_mono_sublist)
    with dot nodot show False by auto
  next
    assume "sublist p t"
    with vp have "sublist ''.vibesync'' t" by (rule sublist_order.order_trans)
    then have "sublist ''.vibesync'' (renderPath ws r)"
      unfolding rtext by (simp add: sublist_append sublist_Cons_right)
    with nov show False by simp
  qed
qed

lemma manifest_entry_ignored:
  "pathIgnored ws [manifestName, ''.vibesync-base''] (p @ [manifestName])"
proof -
  have "sublist manifestName (renderPath ws (p @ [manifestName]))"
    by (auto simp: renderPath_append suffix_def intro: suffix_imp_sublist)
  then show ?thesis by (simp add: pathIgnored_def)
qed


lemma restore_progress_result:
  fixes M :: node and rq :: restore_request and C :: "path set" and cont :: "path \<Rightarrow> content"
  assumes wf: "wellFormed M" and nodot: "CHR ''.'' \<notin> set sid"
    and mr: "0 \<le> restore_maxRetryAttempts rq" and nc: "\<forall>k. \<not> restore_cancel rq k"
    and vE: "''.vibesync'' \<in> set E"
    and snap: "\<forall>r. readFileSync M (vibeDir @ sid # r) =
                 (if r \<in> C then Some (cont r)
                  else if r = [manifestName] then Some mc else None)"
    and Cprop: "\<forall>r\<in>C. r \<noteq> [] \<and> \<not> pathIgnored ws E r \<and> length r \<le> 101"
    and Cfree: "\<forall>r\<in>C. \<forall>r'\<in>C. \<not> strict_prefix r r'"
    and conflict: "\<forall>r\<in>C. \<not> isDirectory M r"
  shows "\<exists>R n1 n2 n3.
           restoreSimpleSnapshot_progress ws M rq (vibeDir @ [sid]) E = (True, R, n1, n2, n3) \<and>
           (\<forall>q. readFileSync R q =
              (if q \<in> C then Some (cont q)
               else if readFileSync M q \<noteq> None \<and> q \<noteq> [] \<and> \<not> pathIgnored ws E q \<and>
                       length q \<le> 101
                    then None else readFileSync M q))"
proof -
  let ?sd = "vibeDir @ [sid]"
  let ?pats = "[manifestName, ''.vibesync-base'']"
  have snap': "readFileSync M (?sd @ r) =
                 (if r \<in> C then Some (cont r)
                  else if r = [manifestName] then Some mc else None)" for r
    using snap by simp
  have ign: "pathIgnored ws E (?sd @ q)" for q
    using named_vibesync_ignored[OF vE self_vibesync, of ws "[]" "sid # q"] by (simp add: vibeDir_def)
  have rootnofile: "readFileSync M [] = None"
  proof (cases M)
    case (File c)
    then have "readFileSync M (?sd @ [manifestName]) = None" by (simp add: vibeDir_def)
    moreover have "[manifestName] \<notin> C"
      using Cprop named_vibesync_ignored[OF vE manifestName_vibesync, of ws "[]" "[]"] by auto
    ultimately show ?thesis using snap'[of "[manifestName]"] by simp
  next
    case (Dir es)
    then show ?thesis by simp
  qed
  \<comment> \<open>the files of the snapshot\<close>
  define snapshotFiles where "snapshotFiles = getFilesRecursively ws M ?sd ?pats"
  have sset: "set snapshotFiles = (@) ?sd ` C"
  proof -
    have "set snapshotFiles =
        {?sd @ q |q. readFileSync M (?sd @ q) \<noteq> None \<and> q \<noteq> [] \<and>
           \<not> pathIgnored ws ?pats (?sd @ q) \<and> length q \<le> 101}"
      unfolding snapshotFiles_def by (rule getFilesRecursively_set[OF wf])
    also have "\<dots> = (@) ?sd ` C"
    proof (intro set_eqI iffI)
      fix x assume "x \<in> {?sd @ q |q. readFileSync M (?sd @ q) \<noteq> None \<and> q \<noteq> [] \<and>
           \<not> pathIgnored ws ?pats (?sd @ q) \<and> length q \<le> 101}"
      then obtain q where q: "x = ?sd @ q" "readFileSync M (?sd @ q) \<noteq> None"
        "\<not> pathIgnored ws ?pats (?sd @ q)" by blast
      have "q \<noteq> [manifestName]"
        using q(3) manifest_entry_ignored[of ws ?sd] by auto
      with q(2) snap'[of q] have "q \<in> C" by (auto split: if_splits)
      with q(1) show "x \<in> (@) ?sd ` C" by blast
    next
      fix x assume "x \<in> (@) ?sd ` C"
      then obtain r where r: "x = ?sd @ r" "r \<in> C" by blast
      then have rp: "r \<noteq> []" "\<not> pathIgnored ws E r" "length r \<le> 101" using Cprop by auto
      have "\<not> pathIgnored ws ?pats (?sd @ r)"
        using snapshot_file_listed[OF rp(2) vE rp(1) nodot] by simp
      moreover have "readFileSync M (?sd @ r) \<noteq> None" using snap'[of r] r(2) by simp
      ultimately show "x \<in> {?sd @ q |q. readFileSync M (?sd @ q) \<noteq> None \<and> q \<noteq> [] \<and>
           \<not> pathIgnored ws ?pats (?sd @ q) \<and> length q \<le> 101}"
        using r(1) rp by blast
    qed
    finally show ?thesis .
  qed
  define rels where "rels = map (drop (length ?sd)) snapshotFiles"
  have relsmap: "map ((@) ?sd) rels = snapshotFiles"
  proof -
    have "\<forall>x\<in>set snapshotFiles. ?sd @ drop (length ?sd) x = x"
      using sset by auto
    then show ?thesis unfolding rels_def by (simp add: map_idI)
  qed
  have relsset: "set rels = C"
  proof -
    have "set rels = drop (length ?sd) ` ((@) ?sd ` C)" unfolding rels_def sset[symmetric] by simp
    also have "\<dots> = C" by (simp add: image_image)
    finally show ?thesis .
  qed
  \<comment> \<open>the live files that are removed\<close>
  define workspaceFiles where "workspaceFiles = getFilesRecursively ws M [] E"
  define W where "W = {q. readFileSync M q \<noteq> None \<and> q \<noteq> [] \<and> \<not> pathIgnored ws E q \<and>
                          length q \<le> 101}"
  have wset: "set workspaceFiles = W"
    unfolding workspaceFiles_def W_def using getFilesRecursively_set[OF wf, of ws "[]" E] by simp
  define fs1 where "fs1 = foldl (\<lambda>fs file. remove file fs) M workspaceFiles"
  have wne: "\<forall>p\<in>set workspaceFiles. p \<noteq> []" using wset W_def by simp
  have covered: "(\<exists>p\<in>W. prefix p q) \<longleftrightarrow> q \<in> W" if "readFileSync M q \<noteq> None \<or> isDirectory M q" for q
  proof
    assume "\<exists>p\<in>W. prefix p q"
    then obtain p where p: "p \<in> W" "prefix p q" by blast
    then obtain c where "readFileSync M p = Some c" unfolding W_def by auto
    from file_prefix_of_file[OF this p(2) that] p(1) show "q \<in> W" by simp
  next
    assume "q \<in> W"
    then show "\<exists>p\<in>W. prefix p q" by auto
  qed
  have r1: "readFileSync fs1 q = (if q \<in> W then None else readFileSync M q)" for q
  proof (cases "readFileSync M q = None")
    case True
    then show ?thesis
      unfolding fs1_def using readFileSync_remove_all[OF wne, of M q] by simp
  next
    case False
    then show ?thesis
      unfolding fs1_def using readFileSync_remove_all[OF wne, of M q] covered[of q] wset by simp
  qed
  have d1: "isDirectory fs1 q = isDirectory M q" for q
  proof (cases "isDirectory M q")
    case True
    then have "q \<notin> W" unfolding W_def using file_not_directory by auto
    with True show ?thesis
      unfolding fs1_def using isDirectory_remove_all[OF wne, of M q] covered[of q] wset by simp
  next
    case False
    then show ?thesis
      unfolding fs1_def using isDirectory_remove_all[OF wne, of M q] by simp
  qed
  \<comment> \<open>every copy succeeds\<close>
  have q2: "\<forall>r\<in>set rels. readFileSync fs1 (?sd @ r) = Some (cont r)"
  proof
    fix r assume r: "r \<in> set rels"
    have "?sd @ r \<notin> W" unfolding W_def using ign[of r] by simp
    then show "readFileSync fs1 (?sd @ r) = Some (cont r)"
      using r1[of "?sd @ r"] snap'[of r] r relsset by simp
  qed
  have q3: "\<forall>r\<in>set rels. r \<noteq> [] \<and> r \<noteq> [manifestName] \<and> r \<noteq> [''.vibesync-base'']"
  proof
    fix r assume "r \<in> set rels"
    then have rp: "r \<noteq> []" "\<not> pathIgnored ws E r" using Cprop relsset by auto
    have "pathIgnored ws E [manifestName]"
      using named_vibesync_ignored[OF vE manifestName_vibesync, of ws "[]" "[]"] by simp
    moreover have "pathIgnored ws E [''.vibesync-base'']"
      using named_vibesync_ignored[OF vE base_vibesync, of ws "[]" "[]"] by simp
    ultimately show "r \<noteq> [] \<and> r \<noteq> [manifestName] \<and> r \<noteq> [''.vibesync-base'']"
      using rp by auto
  qed
  have q4: "\<forall>r\<in>set rels. \<forall>r'\<in>set rels. ?sd @ r \<noteq> r' \<and> \<not> strict_prefix r r'"
  proof (intro ballI conjI)
    fix r r' assume r: "r \<in> set rels" and r': "r' \<in> set rels"
    show "?sd @ r \<noteq> r'" using r' Cprop relsset ign[of r] by auto
    show "\<not> strict_prefix r r'" using r r' Cfree relsset by simp
  qed
  have q5: "\<forall>r\<in>set rels. \<not> isDirectory fs1 r" using conflict relsset d1 by simp
  have q6: "\<forall>r\<in>set rels. \<forall>q. strict_prefix q r \<longrightarrow> readFileSync fs1 q = None"
  proof (intro ballI allI impI)
    fix r q assume r: "r \<in> set rels" and sp: "strict_prefix q r"
    then obtain z where z: "r = q @ z" "z \<noteq> []" by (auto simp: strict_prefix_def prefix_def)
    have rp: "\<not> pathIgnored ws E r" "length r \<le> 101" using r Cprop relsset by auto
    have "\<not> pathIgnored ws E q" using rp(1) z(1) pathIgnored_append by blast
    moreover have "length q \<le> 101" using rp(2) z(1) by simp
    ultimately have "readFileSync M q \<noteq> None \<longrightarrow> q \<in> W"
      unfolding W_def using rootnofile by auto
    then show "readFileSync fs1 q = None" using r1[of q] by (cases "q \<in> W") simp_all
  qed
  from restore_copy_loop[OF mr q2 q3 q4 q5 q6, of 0 0] obtain R where
    loop: "foldl (\<lambda>acc file. restoreFile (restore_maxRetryAttempts rq) ?sd file acc) (fs1, 0, 0)
             snapshotFiles = (R, 0 + length rels, 0)"
    and rR: "\<And>q. readFileSync R q = (if q \<in> set rels then Some (cont q) else readFileSync fs1 q)"
    unfolding relsmap by blast
  \<comment> \<open>in batches or not, the copies are the same\<close>
  let ?bs = "batchSize (length snapshotFiles)"
  have cover: "length snapshotFiles \<le> ((length snapshotFiles + ?bs - 1) div ?bs) * ?bs"
    by (rule ceil_div_covers[OF batchSize_pos])
  have "restoreBatches (restore_cancel rq) (restore_maxRetryAttempts rq) ?sd snapshotFiles
           ?bs ((length snapshotFiles + ?bs - 1) div ?bs) 0 (fs1, 0, 0) =
        (True, foldl (\<lambda>acc file. restoreFile (restore_maxRetryAttempts rq) ?sd file acc) (fs1, 0, 0)
                 (drop (0 * ?bs) snapshotFiles))"
    by (rule restoreBatches_all[OF nc batchSize_pos cover])
  then have batches: "restoreBatches (restore_cancel rq) (restore_maxRetryAttempts rq) ?sd snapshotFiles
           ?bs ((length snapshotFiles + ?bs - 1) div ?bs) 0 (fs1, 0, 0) = (True, R, length rels, 0)"
    using loop by simp
  have prog: "restoreSimpleSnapshot_progress ws M rq ?sd E =
                (True, R, length workspaceFiles, length rels, 0)"
    using nc loop batches
    by (simp add: restoreSimpleSnapshot_progress_def Let_def snapshotFiles_def[symmetric]
        workspaceFiles_def[symmetric] fs1_def[symmetric])
  have final: "readFileSync R q =
              (if q \<in> C then Some (cont q)
               else if readFileSync M q \<noteq> None \<and> q \<noteq> [] \<and> \<not> pathIgnored ws E q \<and>
                       length q \<le> 101
                    then None else readFileSync M q)" for q
    using rR[of q] r1[of q] relsset unfolding W_def by simp
  from prog final show ?thesis by blast
qed

subsection \<open>Round trip\<close>

lemma restore_run_result:
  fixes M :: node and rq :: restore_request and C :: "path set" and cont :: "path \<Rightarrow> content"
  assumes ws: "workspaceInfo st = Some ws" and wf: "wellFormed M"
    and rid: "restore_id rq = sid" and nodot: "CHR ''.'' \<notin> set sid"
    and conf: "restore_confirmed rq"
    and mr: "0 \<le> restore_maxRetryAttempts rq" and nc: "\<forall>k. \<not> restore_cancel rq k"
    and man: "manifest_ignorePatterns m = Some E"
    and vE: "''.vibesync'' \<in> set E"
    and snap: "\<forall>r. readFileSync M (vibeDir @ sid # r) =
                 (if r \<in> C then Some (cont r)
                  else if r = [manifestName] then Some (ManifestJson m) else None)"
    and Cprop: "\<forall>r\<in>C. r \<noteq> [] \<and> \<not> pathIgnored ws E r \<and> length r \<le> 101"
    and Cfree: "\<forall>r\<in>C. \<forall>r'\<in>C. \<not> strict_prefix r r'"
    and conflict: "\<forall>r\<in>C. \<not> isDirectory M r"
  shows "\<exists>R tallies.
           restoreSimpleSnapshot_run st M rq =
             (Success, st\<lparr>isRestoreInProgress := False\<rparr>, R, tallies) \<and>
           (\<forall>q. readFileSync R q =
              (if q \<in> C then Some (cont q)
               else if readFileSync M q \<noteq> None \<and> q \<noteq> [] \<and> \<not> pathIgnored ws E q \<and>
                       length q \<le> 101
                    then None else readFileSync M q))"
proof -
  let ?sd = "vibeDir @ [sid]"
  have notC: "[manifestName] \<notin> C"
    using Cprop named_vibesync_ignored[OF vE manifestName_vibesync, of ws "[]" "[]"] by auto
  have mf: "readFileSync M (?sd @ [manifestName]) = Some (ManifestJson m)"
    using snap notC by simp
  then have rm: "readManifest M (?sd @ [manifestName]) = Some m"
    by (simp add: readManifest_def)
  have "lookup M (?sd @ [manifestName]) \<noteq> None"
    using mf by (auto simp: readFileSync_def split: option.splits)
  moreover have "lookup M (?sd @ [manifestName]) =
      (case lookup M ?sd of None \<Rightarrow> None | Some n' \<Rightarrow> lookup n' [manifestName])"
    by (rule lookup_append)
  ultimately have ex: "existsSync M ?sd"
    unfolding existsSync_def by (cases "lookup M ?sd") simp_all
  have exm: "existsSync M (?sd @ [manifestName])"
    using mf by (auto simp: existsSync_def readFileSync_def split: option.splits)
  have pats: "restorePatterns M ?sd (restore_customIgnores rq) = E"
    using exm rm man by (simp add: restorePatterns_def Let_def)
  from restore_progress_result[OF wf nodot mr nc vE snap Cprop Cfree conflict]
  obtain R n1 n2 n3 where
    prog: "restoreSimpleSnapshot_progress ws M rq ?sd E = (True, R, n1, n2, n3)"
    and fin: "\<forall>q. readFileSync R q =
              (if q \<in> C then Some (cont q)
               else if readFileSync M q \<noteq> None \<and> q \<noteq> [] \<and> \<not> pathIgnored ws E q \<and>
                       length q \<le> 101
                    then None else readFileSync M q)"
    by blast
  have "restoreSimpleSnapshot_run st M rq =
          (Success, st\<lparr>isRestoreInProgress := False\<rparr>, R, n1, n2, n3)"
    using ws rid ex rm conf pats prog
    by (simp add: restoreSimpleSnapshot_run_def Let_def)
  with fin show ?thesis by blast
qed

text \<open>
  C1, as amended. Take a tracked directory \<open>T\<close> whose store \<open>.vibesync\<close> is a directory
  and holds no entry of the new snapshot's id, and capture it with the engine idle and past
  its cooldown. Take any directory tree \<open>M\<close> that still holds the snapshot's content
  directory as the capture left it and in which no directory stands at the path of a
  captured file, and restore the snapshot onto it, confirmed, not cancelled, with a
  non-negative retry setting, at least 2000 ms after the capture began. Then the capture
  and the restore both succeed; every path that matches no exclusion pattern and lies at
  most 101 names below the tracked directory holds after the restore exactly what it held
  in \<open>T\<close> (the same bytes, or no file); and every path that matches an exclusion pattern,
  or lies more than 101 names below the tracked directory, holds what it held in \<open>M\<close>. The exclusion patterns are the defaults followed by the
  setting, and a path matches when a pattern occurs in its text, the path of the tracked
  directory included.
\<close>

theorem capture_restore_round_trip:
  assumes init: "workspaceInfo st = Some ws"
    and idle: "\<not> isSaveInProgress st" "\<not> isRestoreInProgress st"
    and cool1: "OPERATION_COOLDOWN_MS \<le> capture_now cq - lastOperation st"
    and wfT: "wellFormed T" and vd: "isDirectory T vibeDir"
    and fresh: "\<not> existsSync T
                  (vibeDir @ [snapshotId (capture_name cq) (capture_timestamp cq)])"
    and cap: "takeSimpleSnapshot st T cq = (oc, st', T', counts, log)"
    and wfM: "wellFormed M"
    and kept: "lookup M (vibeDir @ [snapshotId (capture_name cq) (capture_timestamp cq)]) =
               lookup T' (vibeDir @ [snapshotId (capture_name cq) (capture_timestamp cq)])"
    and conflict: "list_all (\<lambda>r. \<not> isDirectory M r)
                     (getFilesRecursively ws T []
                        (defaultIgnorePatterns @ capture_customIgnores cq))"
    and rid: "restore_id rq = snapshotId (capture_name cq) (capture_timestamp cq)"
    and conf: "restore_confirmed rq"
    and mr: "0 \<le> restore_maxRetryAttempts rq"
    and nc: "\<forall>k. \<not> restore_cancel rq k"
    and cool2: "OPERATION_COOLDOWN_MS \<le> restore_now rq - capture_now cq"
    and res: "restoreSimpleSnapshot st' M rq = (orr, st'', R, tallies)"
  shows "oc = Success \<and> orr = Success
       \<and> (\<forall>p. \<not> pathIgnored ws (defaultIgnorePatterns @ capture_customIgnores cq) p \<and>
               length p \<le> 101 \<longrightarrow>
             readFileSync R p = readFileSync T p)
       \<and> (\<forall>p. pathIgnored ws (defaultIgnorePatterns @ capture_customIgnores cq) p \<or>
               101 < length p \<longrightarrow>
             readFileSync R p = readFileSync M p)"
proof -
  define sid where "sid = snapshotId (capture_name cq) (capture_timestamp cq)"
  define E where "E = defaultIgnorePatterns @ capture_customIgnores cq"
  let ?sd = "vibeDir @ [sid]"
  define C where "C = set (getFilesRecursively ws T [] E)"
  define cont where "cont = (\<lambda>r. the (readFileSync T r))"
  have vE: "''.vibesync'' \<in> set E" unfolding E_def by (rule vibesync_in_defaults)
  have nodot: "CHR ''.'' \<notin> set sid" unfolding sid_def by (rule snapshotId_no_dot)
  \<comment> \<open>the capture\<close>
  define st1 where "st1 = st\<lparr>isSaveInProgress := True, lastOperation := capture_now cq\<rparr>"
  have enter: "takeSimpleSnapshot_enter st (capture_now cq) = Inr st1"
    using init idle(1) cool1 by (simp add: takeSimpleSnapshot_enter_def st1_def)
  have ws1: "workspaceInfo st1 = Some ws" using init by (simp add: st1_def)
  from capture_result[where st=st1 and T=T and cq=cq and ws=ws, OF ws1 wfT vd fresh]
  obtain st2 T2 counts2 log2 m where
    run: "takeSimpleSnapshot_run st1 T cq = (Success, st2, T2, counts2, log2)"
    and st2: "workspaceInfo st2 = Some ws" "isRestoreInProgress st2 = isRestoreInProgress st1"
      "lastOperation st2 = lastOperation st1"
    and man: "manifest_ignorePatterns m = Some E"
    and files: "\<forall>r. readFileSync T2 (vibeDir @ sid # r) =
              (if r \<in> C then readFileSync T r
               else if r = [manifestName] then Some (ManifestJson m) else None)"
    unfolding sid_def E_def C_def by blast
  from cap enter run have oc: "oc = Success" and st': "st' = st2" and T': "T' = T2"
    by (simp_all add: takeSimpleSnapshot_def)
  \<comment> \<open>the captured files\<close>
  have Cset: "C = {q. readFileSync T q \<noteq> None \<and> q \<noteq> [] \<and> \<not> pathIgnored ws E q \<and> length q \<le> 101}"
    unfolding C_def using getFilesRecursively_set[OF wfT, of ws "[]" E] by simp
  have Cprop: "\<forall>r\<in>C. r \<noteq> [] \<and> \<not> pathIgnored ws E r \<and> length r \<le> 101"
    unfolding Cset by simp
  have Cfree: "\<forall>r\<in>C. \<forall>r'\<in>C. \<not> strict_prefix r r'"
  proof (intro ballI notI)
    fix r r' assume r: "r \<in> C" and r': "r' \<in> C" and sp: "strict_prefix r r'"
    from r obtain c where "readFileSync T r = Some c" unfolding Cset by auto
    moreover have "prefix r r'" using sp by (simp add: strict_prefix_def)
    moreover have "readFileSync T r' \<noteq> None \<or> isDirectory T r'" using r' unfolding Cset by simp
    ultimately have "r' = r" by (rule file_prefix_of_file)
    with sp show False by simp
  qed
  have Cconf: "\<forall>r\<in>C. \<not> isDirectory M r"
    using conflict unfolding C_def E_def by (simp add: list_all_iff)
  \<comment> \<open>the snapshot as the mutated tree holds it\<close>
  have same: "readFileSync M (?sd @ r) = readFileSync T2 (?sd @ r)" for r
  proof -
    have "lookup M ?sd = lookup T2 ?sd" using kept unfolding sid_def[symmetric] T' .
    moreover have "lookup n (?sd @ r) =
        (case lookup n ?sd of None \<Rightarrow> None | Some n' \<Rightarrow> lookup n' r)" for n
      by (rule lookup_append)
    ultimately have "lookup M (?sd @ r) = lookup T2 (?sd @ r)" by simp
    then show ?thesis unfolding readFileSync_def by (rule arg_cong)
  qed
  have snap: "\<forall>r. readFileSync M (vibeDir @ sid # r) =
                 (if r \<in> C then Some (cont r)
                  else if r = [manifestName] then Some (ManifestJson m) else None)"
  proof
    fix r
    have "readFileSync T r = Some (cont r)" if "r \<in> C"
      using that unfolding Cset cont_def by auto
    then show "readFileSync M (vibeDir @ sid # r) =
                 (if r \<in> C then Some (cont r)
                  else if r = [manifestName] then Some (ManifestJson m) else None)"
      using same[of r] files by simp
  qed
  \<comment> \<open>the restore\<close>
  define st3 where "st3 = st2\<lparr>isRestoreInProgress := True, lastOperation := restore_now rq\<rparr>"
  have enter2: "restoreSimpleSnapshot_enter st2 (restore_now rq) = Inr st3"
    using st2 idle(2) cool2
    by (simp add: restoreSimpleSnapshot_enter_def st3_def st1_def)
  have ws3: "workspaceInfo st3 = Some ws" using st2(1) by (simp add: st3_def)
  have rid': "restore_id rq = sid" using rid by (simp add: sid_def)
  from restore_run_result[OF ws3 wfM rid' nodot conf mr nc man vE snap Cprop Cfree Cconf]
  obtain R2 tallies2 where
    run2: "restoreSimpleSnapshot_run st3 M rq =
             (Success, st3\<lparr>isRestoreInProgress := False\<rparr>, R2, tallies2)"
    and fin: "\<forall>q. readFileSync R2 q =
              (if q \<in> C then Some (cont q)
               else if readFileSync M q \<noteq> None \<and> q \<noteq> [] \<and> \<not> pathIgnored ws E q \<and>
                       length q \<le> 101
                    then None else readFileSync M q)"
    by blast
  from res enter2 run2 st' have orr: "orr = Success" and R: "R = R2"
    by (simp_all add: restoreSimpleSnapshot_def)
  \<comment> \<open>the two trees compared\<close>
  have rootT: "readFileSync T [] = None"
    using isDirectory_prefix[of T "[]" vibeDir] vd
    by (auto simp: isDirectory_def readFileSync_def split: option.splits node.splits)
  have rootM: "readFileSync M [] = None"
  proof (cases M)
    case (File c)
    then have "readFileSync M (vibeDir @ sid # [manifestName]) = None" by (simp add: vibeDir_def)
    moreover have "[manifestName] \<notin> C"
      using Cprop named_vibesync_ignored[OF vE manifestName_vibesync, of ws "[]" "[]"] by auto
    ultimately show ?thesis using snap by simp
  next
    case (Dir es)
    then show ?thesis by simp
  qed
  have live: "readFileSync R p = readFileSync T p"
    if "\<not> pathIgnored ws E p" "length p \<le> 101" for p
  proof (cases "p \<in> C")
    case True
    then have "readFileSync T p = Some (cont p)" unfolding Cset cont_def by auto
    with True fin R show ?thesis by simp
  next
    case False
    show ?thesis
    proof (cases "p = []")
      case True
      with False fin R rootT rootM show ?thesis by simp
    next
      case ne: False
      with False that have "readFileSync T p = None" unfolding Cset by simp
      moreover have "readFileSync R p = None"
        using False fin R that ne by (cases "readFileSync M p = None") simp_all
      ultimately show ?thesis by simp
    qed
  qed
  have excluded: "readFileSync R p = readFileSync M p"
    if "pathIgnored ws E p \<or> 101 < length p" for p
  proof -
    have "p \<notin> C" using that Cprop by auto
    with fin R that show ?thesis by auto
  qed
  from oc orr live excluded show ?thesis unfolding E_def by blast
qed

theorem capture_restore_round_trip_witness:
  "wellFormed example_tree \<and> isDirectory example_tree vibeDir
   \<and> \<not> existsSync example_tree [''.vibesync'', ''state-s-1-5001'']
   \<and> wellFormed example_mutated
   \<and> lookup example_mutated [''.vibesync'', ''state-s-1-5001''] =
       lookup example_captured [''.vibesync'', ''state-s-1-5001'']
   \<and> getFilesRecursively ''/w'' example_tree [] defaultIgnorePatterns =
       [[''a.txt''], [''sub'', ''b.txt'']]
   \<and> \<not> isDirectory example_mutated [''a.txt'']
   \<and> \<not> isDirectory example_mutated [''sub'', ''b.txt'']
   \<and> readFileSync example_mutated [''a.txt''] = None
   \<and> readFileSync example_restored [''a.txt''] = readFileSync example_tree [''a.txt'']
   \<and> readFileSync example_mutated [''sub'', ''b.txt''] = Some (Bytes ''9'')
   \<and> readFileSync example_restored [''sub'', ''b.txt''] = readFileSync example_tree [''sub'', ''b.txt'']
   \<and> readFileSync example_mutated [''c.txt''] = Some (Bytes ''4'')
   \<and> readFileSync example_restored [''c.txt''] = readFileSync example_tree [''c.txt'']
   \<and> pathIgnored ''/w'' defaultIgnorePatterns [''node_modules'', ''x.txt'']
   \<and> readFileSync example_restored [''node_modules'', ''x.txt''] =
       readFileSync example_mutated [''node_modules'', ''x.txt'']"
proof -
  let ?st' = "example_state\<lparr>workspaceStateMetadata := [example_metadata], lastOperation := 5000\<rparr>"
  let ?E = "defaultIgnorePatterns @ capture_customIgnores example_capture"
  have sid: "snapshotId (capture_name example_capture) (capture_timestamp example_capture) =
      ''state-s-1-5001''"
    by (simp add: example_capture_def snapshotId_example)
  have E: "?E = defaultIgnorePatterns" by (simp add: example_capture_def)
  have init: "workspaceInfo example_state = Some ''/w''" by (simp add: example_state_def)
  have idle: "\<not> isSaveInProgress example_state" "\<not> isRestoreInProgress example_state"
    by (simp_all add: example_state_def)
  have cool1: "OPERATION_COOLDOWN_MS \<le> capture_now example_capture - lastOperation example_state"
    by (simp add: OPERATION_COOLDOWN_MS_def example_capture_def example_state_def)
  have wfT: "wellFormed example_tree" by (simp add: example_tree_def)
  have vd: "isDirectory example_tree vibeDir"
    by (simp add: example_tree_def isDirectory_def vibeDir_def)
  have fresh: "\<not> existsSync example_tree [''.vibesync'', ''state-s-1-5001'']"
    by (simp add: example_tree_def existsSync_def)
  have wfM: "wellFormed example_mutated"
    by (simp add: example_mutated_def example_snapshot_def)
  have kept: "lookup example_mutated [''.vibesync'', ''state-s-1-5001''] =
       lookup example_captured [''.vibesync'', ''state-s-1-5001'']"
    by (simp add: example_mutated_def example_captured_def)
  have walk: "getFilesRecursively ''/w'' example_tree [] defaultIgnorePatterns =
       [[''a.txt''], [''sub'', ''b.txt'']]"
    by (simp add: example_tree_def walk_defs)
  have nd: "\<not> isDirectory example_mutated [''a.txt'']"
    "\<not> isDirectory example_mutated [''sub'', ''b.txt'']"
    by (simp_all add: example_mutated_def isDirectory_def)
  have conflict: "list_all (\<lambda>r. \<not> isDirectory example_mutated r)
      (getFilesRecursively ''/w'' example_tree [] ?E)"
    unfolding E walk using nd by simp
  have rid: "restore_id example_restore = ''state-s-1-5001''"
    and conf: "restore_confirmed example_restore"
    and mr: "0 \<le> restore_maxRetryAttempts example_restore"
    and nc: "\<forall>k. \<not> restore_cancel example_restore k"
    by (simp_all add: example_restore_def)
  have cool2: "OPERATION_COOLDOWN_MS \<le> restore_now example_restore - capture_now example_capture"
    by (simp add: OPERATION_COOLDOWN_MS_def example_capture_def example_restore_def)
  have "restoreSimpleSnapshot_enter ?st' 9000 =
      Inr (?st'\<lparr>isRestoreInProgress := True, lastOperation := 9000\<rparr>)"
    by (simp add: restoreSimpleSnapshot_enter_def example_state_def OPERATION_COOLDOWN_MS_def)
  moreover have "restoreSimpleSnapshot_run
       (?st'\<lparr>isRestoreInProgress := True, lastOperation := 9000\<rparr>)
       example_mutated example_restore =
     (Success, ?st'\<lparr>isRestoreInProgress := True, lastOperation := 9000\<rparr>
                 \<lparr>isRestoreInProgress := False\<rparr>, example_restored, 2, 2, 0)"
    by (rule example_restore_run) (simp add: example_state_def)
  moreover have "restore_now example_restore = 9000" by (simp add: example_restore_def)
  ultimately have res: "restoreSimpleSnapshot ?st' example_mutated example_restore =
     (Success, ?st'\<lparr>isRestoreInProgress := True, lastOperation := 9000\<rparr>
                 \<lparr>isRestoreInProgress := False\<rparr>, example_restored, 2, 2, 0)"
    by (simp add: restoreSimpleSnapshot_def)
  have fresh': "\<not> existsSync example_tree
      (vibeDir @ [snapshotId (capture_name example_capture) (capture_timestamp example_capture)])"
    unfolding sid using fresh by (simp add: vibeDir_def)
  have kept': "lookup example_mutated
      (vibeDir @ [snapshotId (capture_name example_capture) (capture_timestamp example_capture)]) =
    lookup example_captured
      (vibeDir @ [snapshotId (capture_name example_capture) (capture_timestamp example_capture)])"
    unfolding sid using kept by (simp add: vibeDir_def)
  have rid': "restore_id example_restore =
      snapshotId (capture_name example_capture) (capture_timestamp example_capture)"
    unfolding sid by (rule rid)
  note rt = capture_restore_round_trip [OF init idle cool1 wfT vd fresh'
      example_takeSimpleSnapshot wfM kept' conflict rid' conf mr nc cool2 res]
  have live: "\<not> pathIgnored ''/w'' defaultIgnorePatterns [''a.txt'']"
    "\<not> pathIgnored ''/w'' defaultIgnorePatterns [''sub'', ''b.txt'']"
    "\<not> pathIgnored ''/w'' defaultIgnorePatterns [''c.txt'']"
    by (simp_all add: pathIgnored_def walk_defs)
  have excl: "pathIgnored ''/w'' defaultIgnorePatterns [''node_modules'', ''x.txt'']"
    by (simp add: pathIgnored_def walk_defs)
  from rt live excl have
    "readFileSync example_restored [''a.txt''] = readFileSync example_tree [''a.txt'']"
    "readFileSync example_restored [''sub'', ''b.txt''] = readFileSync example_tree [''sub'', ''b.txt'']"
    "readFileSync example_restored [''c.txt''] = readFileSync example_tree [''c.txt'']"
    "readFileSync example_restored [''node_modules'', ''x.txt''] =
       readFileSync example_mutated [''node_modules'', ''x.txt'']"
    unfolding E by simp_all
  moreover have "readFileSync example_mutated [''a.txt''] = None"
    "readFileSync example_mutated [''sub'', ''b.txt''] = Some (Bytes ''9'')"
    "readFileSync example_mutated [''c.txt''] = Some (Bytes ''4'')"
    by (simp_all add: example_mutated_def readFileSync_def)
  ultimately show ?thesis using wfT vd fresh wfM kept walk nd excl by simp
qed

subsection \<open>A file below the depth limit of the walk\<close>

lemma renderPath_chars:
  "set (renderPath ws p) \<subseteq> set ws \<union> {CHR ''/''} \<union> \<Union> (set ` set p)"
  by (induction p rule: rev_induct) (auto simp: renderPath_def)

lemma d_path_not_ignored:
  assumes "set (concat p) \<subseteq> {CHR ''d'', CHR ''f''}"
  shows "\<not> pathIgnored ''/w'' defaultIgnorePatterns p"
proof
  assume "pathIgnored ''/w'' defaultIgnorePatterns p"
  then obtain pattern where m: "pattern \<in> set defaultIgnorePatterns"
    and s: "sublist pattern (renderPath ''/w'' p)"
    by (auto simp: pathIgnored_def list_ex_iff)
  have "set pattern \<subseteq> set (renderPath ''/w'' p)" using s by (rule set_mono_sublist)
  also have "\<dots> \<subseteq> set ''/w'' \<union> {CHR ''/''} \<union> \<Union> (set ` set p)" by (rule renderPath_chars)
  also have "\<dots> \<subseteq> {CHR ''/'', CHR ''w'', CHR ''d'', CHR ''f''}" using assms by auto
  finally have "set pattern \<subseteq> {CHR ''/'', CHR ''w'', CHR ''d'', CHR ''f''}" .
  with m show False by (auto simp: defaultIgnorePatterns_def)
qed

lemma nest_Dir: "\<exists>es. nest k (Dir xs) = Dir es"
  by (cases k) simp_all

lemma nest_walk:
  "k \<le> 100 \<Longrightarrow>
   getFilesRecursively_dir ''/w'' (nest k (Dir [(''f'', File c)])) (replicate (101 - k) ''d'')
     defaultIgnorePatterns res (101 - k) 100 = res"
proof (induction k arbitrary: res)
  case 0
  show ?case by simp
next
  case (Suc k)
  obtain es where es: "nest k (Dir [(''f'', File c)]) = Dir es" using nest_Dir by blast
  have ni: "\<not> isIgnored ''/w'' defaultIgnorePatterns (replicate (100 - k) ''d'') ''d''"
    unfolding isIgnored_pathIgnored by (rule d_path_not_ignored) auto
  have d: "101 - k = Suc (100 - k)" using Suc.prems by simp
  have r: "replicate (100 - k) ''d'' @ [''d''] = replicate (Suc (100 - k)) ''d''"
    by (simp add: replicate_append_same)
  have "getFilesRecursively_dir ''/w'' (Dir es) (replicate (Suc (100 - k)) ''d'')
     defaultIgnorePatterns res (Suc (100 - k)) 100 = res"
    using Suc.IH[of res] Suc.prems es unfolding d by simp
  moreover have "101 - Suc k = 100 - k" by simp
  ultimately show ?case using ni es Suc.prems unfolding r[symmetric] by (simp del: replicate_Suc)
qed

lemma deep_walk:
  "getFilesRecursively ''/w'' (Dir [(''d'', nest 100 (Dir [(''f'', File c)])), (''.vibesync'', S)]) []
     defaultIgnorePatterns = []"
proof -
  obtain es where es: "nest 100 (Dir [(''f'', File c)]) = Dir es" using nest_Dir by blast
  have ni: "\<not> isIgnored ''/w'' defaultIgnorePatterns [] ''d''"
    unfolding isIgnored_pathIgnored by (rule d_path_not_ignored) auto
  have ig: "isIgnored ''/w'' defaultIgnorePatterns [] ''.vibesync''"
    by (simp add: isIgnored_def defaultIgnorePatterns_def)
  have "getFilesRecursively_dir ''/w'' (Dir es) [''d''] defaultIgnorePatterns [] 1 100 = []"
    using nest_walk[of 100 c "[]"] es by simp
  then show ?thesis using ni ig es by (simp add: getFilesRecursively_def)
qed

lemma lookup_nest:
  "lookup (nest k n) (replicate k ''d'' @ p) = lookup n p"
  by (induction k) simp_all

lemma deep_path_Cons: "deep_path = ''d'' # (replicate 100 ''d'' @ [''f''])"
proof -
  have "(101::nat) = Suc 100" by simp
  then have "replicate 101 ''d'' = ''d'' # replicate 100 ''d''" by (simp only: replicate_Suc)
  then show ?thesis by (simp add: deep_path_def)
qed

lemma deep_tree_read: "readFileSync deep_tree deep_path = Some (Bytes ''1'')"
  unfolding deep_path_Cons by (simp add: deep_tree_def readFileSync_def lookup_nest)

lemma deep_mutated_read: "readFileSync deep_mutated deep_path = None"
  unfolding deep_path_Cons by (simp add: deep_mutated_def readFileSync_def)

lemma deep_path_not_ignored: "\<not> pathIgnored ''/w'' defaultIgnorePatterns deep_path"
  by (rule d_path_not_ignored) (auto simp: deep_path_def)

lemma deep_takeSimpleSnapshot:
  "takeSimpleSnapshot example_state deep_tree example_capture =
    (Success,
     example_state\<lparr>workspaceStateMetadata := [example_metadata], lastOperation := 5000\<rparr>,
     deep_captured, (0, 0),
     [ManifestWritten [''.vibesync'', ''state-s-1-5001'', ''.vibesync-manifest.json''],
      MetadataPushed ''state-s-1-5001''])"
  by (simp add: takeSimpleSnapshot_def takeSimpleSnapshot_enter_def takeSimpleSnapshot_run_def
      example_state_def example_capture_def example_manifest_def example_metadata_def
      deep_tree_def deep_captured_def deep_store_def
      OPERATION_COOLDOWN_MS_def snapshotId_example Let_def fs_defs deep_walk
      orUndefined_def saveWorkspaceStateMetadata_def)

lemma deep_restore_run:
  "workspaceInfo st = Some ''/w'' \<Longrightarrow>
   restoreSimpleSnapshot_run st deep_mutated example_restore =
     (Success, st\<lparr>isRestoreInProgress := False\<rparr>, deep_mutated, 0, 0, 0)"
  by (simp add: restore_defs example_defs deep_mutated_def deep_store_def fs_defs walk_defs)

text \<open>
  C1 as stated fails on a file that lies more than 101 names below the tracked directory.
  The tree \<open>deep_tree\<close> holds the file \<open>d/d/.../d/f\<close> under 101 directories; no exclusion
  pattern occurs in its path. The capture succeeds and copies no file. In the mutated copy
  the directories are gone; the restore succeeds, restores no file, and the file that the
  captured tree held is still missing.
\<close>

theorem deep_file_counterexample:
  "takeSimpleSnapshot example_state deep_tree example_capture =
    (Success,
     example_state\<lparr>workspaceStateMetadata := [example_metadata], lastOperation := 5000\<rparr>,
     deep_captured, (0, 0),
     [ManifestWritten [''.vibesync'', ''state-s-1-5001'', ''.vibesync-manifest.json''],
      MetadataPushed ''state-s-1-5001''])
   \<and> restoreSimpleSnapshot
        (example_state\<lparr>workspaceStateMetadata := [example_metadata], lastOperation := 5000\<rparr>)
        deep_mutated example_restore =
      (Success,
       example_state\<lparr>workspaceStateMetadata := [example_metadata], lastOperation := 9000\<rparr>,
       deep_mutated, 0, 0, 0)
   \<and> readFileSync deep_tree deep_path = Some (Bytes ''1'')
   \<and> \<not> pathIgnored ''/w'' defaultIgnorePatterns deep_path
   \<and> readFileSync deep_mutated deep_path = None"
proof -
  let ?st' = "example_state\<lparr>workspaceStateMetadata := [example_metadata], lastOperation := 5000\<rparr>"
  have "restoreSimpleSnapshot_enter ?st' 9000 =
      Inr (?st'\<lparr>isRestoreInProgress := True, lastOperation := 9000\<rparr>)"
    by (simp add: restoreSimpleSnapshot_enter_def example_state_def OPERATION_COOLDOWN_MS_def)
  moreover have "restoreSimpleSnapshot_run
       (?st'\<lparr>isRestoreInProgress := True, lastOperation := 9000\<rparr>)
       deep_mutated example_restore =
     (Success, ?st'\<lparr>isRestoreInProgress := True, lastOperation := 9000\<rparr>
                 \<lparr>isRestoreInProgress := False\<rparr>, deep_mutated, 0, 0, 0)"
    by (rule deep_restore_run) (simp add: example_state_def)
  moreover have "restore_now example_restore = 9000" by (simp add: example_restore_def)
  ultimately have "restoreSimpleSnapshot ?st' deep_mutated example_restore =
     (Success, example_state\<lparr>workspaceStateMetadata := [example_metadata], lastOperation := 9000\<rparr>,
      deep_mutated, 0, 0, 0)"
    by (simp add: restoreSimpleSnapshot_def example_state_def)
  then show ?thesis
    using deep_takeSimpleSnapshot deep_tree_read deep_path_not_ignored deep_mutated_read
    by simp
qed

subsection \<open>The exclusion rule\<close>

lemma sublist_snoc_same:
  "sublist (a @ [x]) (s @ [x]) \<longleftrightarrow> sublist (a @ [x]) s \<or> suffix a s"
proof
  assume "sublist (a @ [x]) (s @ [x])"
  then obtain ps ss where e: "s @ [x] = ps @ (a @ [x]) @ ss" by (auto simp: sublist_def)
  show "sublist (a @ [x]) s \<or> suffix a s"
  proof (cases ss rule: rev_cases)
    case Nil
    with e have "s = ps @ a" by simp
    then show ?thesis by (simp add: suffix_def)
  next
    case (snoc ss' y)
    with e have "s @ [x] = (ps @ (a @ [x]) @ ss') @ [y]" by simp
    then have "s = ps @ (a @ [x]) @ ss'" by (simp only: append1_eq_conv)
    then show ?thesis unfolding sublist_def by blast
  qed
next
  assume "sublist (a @ [x]) s \<or> suffix a s"
  then show "sublist (a @ [x]) (s @ [x])"
  proof
    assume "sublist (a @ [x]) s"
    then obtain ps ss where "s = ps @ (a @ [x]) @ ss" by (auto simp: sublist_def)
    then have "s @ [x] = ps @ (a @ [x]) @ (ss @ [x])" by simp
    then show ?thesis unfolding sublist_def by blast
  next
    assume "suffix a s"
    then obtain ps where "s = ps @ a" by (auto simp: suffix_def)
    then have "s @ [x] = ps @ (a @ [x]) @ []" by simp
    then show ?thesis unfolding sublist_def by blast
  qed
qed

lemma segment_of_path:
  "sublist (''/'' @ pattern @ ''/'') (renderPath ws (source @ [name]) @ ''/'') \<longleftrightarrow>
     name = pattern \<and> suffix (''/'' @ pattern) (renderPath ws (source @ [name])) \<or>
     sublist (''/'' @ pattern @ ''/'') (renderPath ws (source @ [name])) \<or>
     suffix (''/'' @ pattern) (renderPath ws (source @ [name]))"
  using sublist_snoc_same[of "''/'' @ pattern" "CHR ''/''" "renderPath ws (source @ [name])"]
  by auto

lemma name_is_segment:
  "suffix (''/'' @ name) (renderPath ws (source @ [name]))"
  by (simp add: renderPath_append suffix_def)

text \<open>
  C7, as amended. In the tree walk an entry is excluded exactly when some pattern occurs in
  the text of its path joined to the path of the walked directory, which already covers a
  pattern equal to the entry's name; so the walk of a well-formed tree lists exactly the
  files in whose joined path no pattern occurs and that lie at most 101 names below the
  walked directory. In the directory copy of the first revision an entry is excluded
  exactly when some pattern is a whole segment of that joined path (between two
  separators, the end of the path counting as one), or the regular expression made of the
  pattern, with every \<open>*\<close> replaced by \<open>.*\<close> and anchored at both ends, matches the entry's
  name; in the second revision, when some pattern occurs in the joined path or the
  expression made of the pattern, with its first \<open>*\<close> replaced by \<open>.*\<close>, matches in the
  name. The joined path begins with the absolute path of the tracked directory: the test
  is not made on the path relative to the walked directory.
\<close>

theorem exclusion_on_joined_path:
  assumes "wellFormed fs"
  shows "(isIgnored ws P dirPath name \<longleftrightarrow> pathIgnored ws P (dirPath @ [name]))
       \<and> set (getFilesRecursively ws fs dirPath P) =
           {dirPath @ q |q. readFileSync fs (dirPath @ q) \<noteq> None \<and> q \<noteq> [] \<and>
              \<not> pathIgnored ws P (dirPath @ q) \<and> length q \<le> 101}
       \<and> (simpleCopyDirectory_ignored regexTest ws P dirPath name \<longleftrightarrow>
            list_ex (\<lambda>pattern.
                sublist (''/'' @ pattern @ ''/'') (renderPath ws (dirPath @ [name]) @ ''/'') \<or>
                regexTest (globSource pattern) name) P)
       \<and> (simpleCopyDirectory_staged_ignored regexTest ws P dirPath name \<longleftrightarrow>
            pathIgnored ws P (dirPath @ [name]) \<or>
            list_ex (\<lambda>pattern. regexTest (replaceFirstStar pattern) name) P)"
proof -
  have walk: "isIgnored ws P dirPath name \<longleftrightarrow> pathIgnored ws P (dirPath @ [name])"
    by (rule isIgnored_pathIgnored)
  have listed: "set (getFilesRecursively ws fs dirPath P) =
           {dirPath @ q |q. readFileSync fs (dirPath @ q) \<noteq> None \<and> q \<noteq> [] \<and>
              \<not> pathIgnored ws P (dirPath @ q) \<and> length q \<le> 101}"
    using assms by (rule getFilesRecursively_set)
  have first: "simpleCopyDirectory_ignored regexTest ws P dirPath name \<longleftrightarrow>
            list_ex (\<lambda>pattern.
                sublist (''/'' @ pattern @ ''/'') (renderPath ws (dirPath @ [name]) @ ''/'') \<or>
                regexTest (globSource pattern) name) P"
  proof -
    have "name = pattern \<or>
          sublist (''/'' @ pattern @ ''/'') (renderPath ws (dirPath @ [name])) \<or>
          suffix (''/'' @ pattern) (renderPath ws (dirPath @ [name])) \<or>
          regexTest (globSource pattern) name \<longleftrightarrow>
          sublist (''/'' @ pattern @ ''/'') (renderPath ws (dirPath @ [name]) @ ''/'') \<or>
          regexTest (globSource pattern) name" for pattern
      using segment_of_path[of pattern ws dirPath name] name_is_segment[of name ws dirPath]
      by blast
    then show ?thesis
      unfolding simpleCopyDirectory_ignored_def Let_def list_ex_iff by blast
  qed
  have second: "simpleCopyDirectory_staged_ignored regexTest ws P dirPath name \<longleftrightarrow>
            pathIgnored ws P (dirPath @ [name]) \<or>
            list_ex (\<lambda>pattern. regexTest (replaceFirstStar pattern) name) P"
  proof -
    have "sublist pattern (renderPath ws (dirPath @ [name]))" if "name = pattern" for pattern
      using that name_is_segment[of name ws dirPath]
      by (auto simp: suffix_def intro: sublist_appendI)
    then show ?thesis
      unfolding simpleCopyDirectory_staged_ignored_def pathIgnored_def Let_def list_ex_iff
      by blast
  qed
  from walk listed first second show ?thesis by blast
qed

theorem exclusion_on_joined_path_witness:
  "wellFormed example_tree
   \<and> isIgnored ''/w'' defaultIgnorePatterns [] ''node_modules''
   \<and> pathIgnored ''/w'' defaultIgnorePatterns [''node_modules'', ''x.txt'']
   \<and> [''node_modules'', ''x.txt''] \<notin> set (getFilesRecursively ''/w'' example_tree [] defaultIgnorePatterns)
   \<and> readFileSync example_tree [''sub'', ''b.txt''] = Some (Bytes ''2'')
   \<and> \<not> pathIgnored ''/w'' defaultIgnorePatterns [''sub'', ''b.txt'']
   \<and> [''sub'', ''b.txt''] \<in> set (getFilesRecursively ''/w'' example_tree [] defaultIgnorePatterns)
   \<and> simpleCopyDirectory_ignored (\<lambda>r s. False) ''/w'' defaultIgnorePatterns [] ''node_modules''
   \<and> simpleCopyDirectory_staged_ignored (\<lambda>r s. False) ''/w'' defaultIgnorePatterns [] ''node_modules''"
proof -
  have wf: "wellFormed example_tree" by (simp add: example_tree_def)
  note th = exclusion_on_joined_path [OF wf, of "''/w''" defaultIgnorePatterns "[]" _ "\<lambda>r s. False"]
  have a: "pathIgnored ''/w'' defaultIgnorePatterns [''node_modules'']"
    "pathIgnored ''/w'' defaultIgnorePatterns [''node_modules'', ''x.txt'']"
    "\<not> pathIgnored ''/w'' defaultIgnorePatterns [''sub'', ''b.txt'']"
    by (simp_all add: pathIgnored_def walk_defs)
  have r: "readFileSync example_tree [''sub'', ''b.txt''] = Some (Bytes ''2'')"
    by (simp add: example_tree_def readFileSync_def)
  have seg: "sublist (''/'' @ ''node_modules'' @ ''/'') (renderPath ''/w'' ([] @ [''node_modules'']) @ ''/'')"
    by (simp add: renderPath_def sublist_code)
  from th [of "''node_modules''"] a(1) have i1: "isIgnored ''/w'' defaultIgnorePatterns [] ''node_modules''"
    by simp
  from th [of "''node_modules''"] a(2) have i2:
    "[''node_modules'', ''x.txt''] \<notin> set (getFilesRecursively ''/w'' example_tree [] defaultIgnorePatterns)"
    by simp
  from th [of "''node_modules''"] a(3) r have i3:
    "[''sub'', ''b.txt''] \<in> set (getFilesRecursively ''/w'' example_tree [] defaultIgnorePatterns)"
    by simp
  from th [of "''node_modules''"] seg have i4:
    "simpleCopyDirectory_ignored (\<lambda>r s. False) ''/w'' defaultIgnorePatterns [] ''node_modules''"
    by (simp add: defaultIgnorePatterns_def)
  from th [of "''node_modules''"] a(1) have i5:
    "simpleCopyDirectory_staged_ignored (\<lambda>r s. False) ''/w'' defaultIgnorePatterns [] ''node_modules''"
    by simp
  from wf a r i1 i2 i3 i4 i5 show ?thesis by simp
qed

text \<open>
  C7 as stated fails where the path of the tracked directory itself holds a pattern. The
  tree of the scenario, tracked at \<open>/home/u/build/app\<close>: the default pattern \<open>build\<close> occurs in
  the joined path of every entry, so \<open>a.txt\<close> is excluded and the walk lists nothing,
  although no default pattern is a segment of the relative path \<open>a.txt\<close> or occurs in it
  (the test made with an empty text for the tracked directory). Tracked at \<open>/w\<close>, the same
  entry is not excluded.
\<close>

theorem exclusion_by_root_counterexample:
  "isIgnored ''/home/u/build/app'' defaultIgnorePatterns [] ''a.txt''
   \<and> \<not> isIgnored ''/w'' defaultIgnorePatterns [] ''a.txt''
   \<and> \<not> isIgnored [] defaultIgnorePatterns [] ''a.txt''
   \<and> getFilesRecursively ''/home/u/build/app'' example_tree [] defaultIgnorePatterns = []
   \<and> getFilesRecursively ''/w'' example_tree [] defaultIgnorePatterns =
       [[''a.txt''], [''sub'', ''b.txt'']]"
  by (simp add: example_tree_def walk_defs)

subsection \<open>Excluded files and the second revision's removal step\<close>

lemma nested_restore_run:
  "workspaceInfo st = Some ''/w'' \<Longrightarrow>
   restoreSimpleSnapshot_run st example_nested example_restore =
     (Success, st\<lparr>isRestoreInProgress := False\<rparr>,
      Dir [(''src'', Dir [(''node_modules'', Dir [(''x.txt'', File (Bytes ''3''))])]),
           (''node_modules'', Dir [(''y.txt'', File (Bytes ''6''))]),
           (''.vibesync'',
              Dir [(''state-s-1-5001'', example_snapshot),
                   (''metadata.json'', File (MetadataJson [example_metadata]))]),
           (''a.txt'', File (Bytes ''1'')),
           (''sub'', Dir [(''b.txt'', File (Bytes ''2''))])],
      1, 2, 0)"
  by (simp add: restore_defs example_defs fs_defs walk_defs)

text \<open>
  C2 at a failing input. In \<open>example_nested\<close> the file \<open>src/node_modules/x.txt\<close> matches the
  pattern \<open>node_modules\<close>. Step 5 of the second revision's restore looks at the names of the
  top-level entries only: \<open>src\<close> is no pattern, so it is removed with all it holds, the
  excluded file included. The first revision's restore of the same snapshot onto the same
  tree keeps the file.
\<close>

theorem staged_restore_removes_excluded:
  "pathIgnored ''/w'' defaultIgnorePatterns [''src'', ''node_modules'', ''x.txt'']
   \<and> readFileSync example_nested [''src'', ''node_modules'', ''x.txt''] = Some (Bytes ''3'')
   \<and> restoreSimpleSnapshot_staged_step5 example_nested [] 3 =
       (Dir [(''node_modules'', Dir [(''y.txt'', File (Bytes ''6''))]),
             (''.vibesync'',
                Dir [(''state-s-1-5001'', example_snapshot),
                     (''metadata.json'', File (MetadataJson [example_metadata]))])],
        1, 0)
   \<and> readFileSync (fst (restoreSimpleSnapshot_staged_step5 example_nested [] 3))
         [''src'', ''node_modules'', ''x.txt''] = None
   \<and> fst (restoreSimpleSnapshot (example_state\<lparr>lastOperation := 5000\<rparr>) example_nested
             example_restore) = Success
   \<and> readFileSync
         (fst (snd (snd (restoreSimpleSnapshot (example_state\<lparr>lastOperation := 5000\<rparr>)
                           example_nested example_restore))))
         [''src'', ''node_modules'', ''x.txt''] = Some (Bytes ''3'')"
proof -
  have a: "pathIgnored ''/w'' defaultIgnorePatterns [''src'', ''node_modules'', ''x.txt'']"
    by (simp add: pathIgnored_def walk_defs)
  have b: "readFileSync example_nested [''src'', ''node_modules'', ''x.txt''] = Some (Bytes ''3'')"
    by (simp add: example_nested_def readFileSync_def)
  have c: "restoreSimpleSnapshot_staged_step5 example_nested [] 3 =
       (Dir [(''node_modules'', Dir [(''y.txt'', File (Bytes ''6''))]),
             (''.vibesync'',
                Dir [(''state-s-1-5001'', example_snapshot),
                     (''metadata.json'', File (MetadataJson [example_metadata]))])],
        1, 0)"
    by (simp add: restoreSimpleSnapshot_staged_step5_def example_nested_def
        defaultIgnorePatterns_def removeWithRetry_def removeAttempt_def
        copyFileWithRetry_loop_unfold)
  have d: "readFileSync (fst (restoreSimpleSnapshot_staged_step5 example_nested [] 3))
         [''src'', ''node_modules'', ''x.txt''] = None"
    unfolding c by (simp add: readFileSync_def)
  have "restoreSimpleSnapshot_enter (example_state\<lparr>lastOperation := 5000\<rparr>) 9000 =
      Inr (example_state\<lparr>lastOperation := 9000, isRestoreInProgress := True\<rparr>)"
    by (simp add: restoreSimpleSnapshot_enter_def example_state_def OPERATION_COOLDOWN_MS_def)
  moreover note nested_restore_run
    [of "example_state\<lparr>lastOperation := 9000, isRestoreInProgress := True\<rparr>"]
  moreover have "restore_now example_restore = 9000" by (simp add: example_restore_def)
  ultimately have e: "restoreSimpleSnapshot (example_state\<lparr>lastOperation := 5000\<rparr>)
      example_nested example_restore =
     (Success, example_state\<lparr>lastOperation := 9000\<rparr>,
      Dir [(''src'', Dir [(''node_modules'', Dir [(''x.txt'', File (Bytes ''3''))])]),
           (''node_modules'', Dir [(''y.txt'', File (Bytes ''6''))]),
           (''.vibesync'',
              Dir [(''state-s-1-5001'', example_snapshot),
                   (''metadata.json'', File (MetadataJson [example_metadata]))]),
           (''a.txt'', File (Bytes ''1'')),
           (''sub'', Dir [(''b.txt'', File (Bytes ''2''))])],
      1, 2, 0)"
    by (simp add: restoreSimpleSnapshot_def example_state_def)
  show ?thesis unfolding e using a b c d by (simp add: readFileSync_def)
qed

subsection \<open>Deleting a snapshot\<close>

lemma findIndex_Some:
  "findIndex P xs = Some i \<Longrightarrow> i < length xs \<and> P (xs ! i)"
proof (induction xs arbitrary: i)
  case Nil
  then show ?case by simp
next
  case (Cons x xs)
  show ?case
  proof (cases "P x")
    case True
    with Cons.prems show ?thesis by simp
  next
    case False
    with Cons.prems obtain j where j: "findIndex P xs = Some j" "i = Suc j" by auto
    with Cons.IH[of j] show ?thesis by simp
  qed
qed

lemma existsSync_cases: "existsSync fs p \<longleftrightarrow> readFileSync fs p \<noteq> None \<or> isDirectory fs p"
  by (auto simp: existsSync_def readFileSync_def isDirectory_def split: option.splits node.splits)

lemma existsSync_remove: "p \<noteq> [] \<Longrightarrow> \<not> existsSync (remove p fs) p"
  by (simp add: existsSync_cases readFileSync_remove isDirectory_remove)

lemma saveWorkspaceStateMetadata_read:
  "readFileSync (saveWorkspaceStateMetadata st fs) q =
     (if q = metadataFile \<and> isDirectory fs vibeDir \<and> \<not> isDirectory fs metadataFile
      then Some (MetadataJson (workspaceStateMetadata st)) else readFileSync fs q)"
proof (cases "writeFileSync metadataFile (MetadataJson (workspaceStateMetadata st)) fs")
  case None
  then have "\<not> (isDirectory fs vibeDir \<and> \<not> isDirectory fs metadataFile)"
    using writeFileSync_Some_iff[of metadataFile "MetadataJson (workspaceStateMetadata st)" fs]
    by (simp add: metadataFile_def)
  with None show ?thesis by (auto simp: saveWorkspaceStateMetadata_def)
next
  case (Some fs')
  then have "isDirectory fs vibeDir \<and> \<not> isDirectory fs metadataFile"
    using writeFileSync_Some_iff[of metadataFile "MetadataJson (workspaceStateMetadata st)" fs]
    by (simp add: metadataFile_def)
  with Some readFileSync_write[OF Some, of q] show ?thesis
    by (simp add: saveWorkspaceStateMetadata_def)
qed

lemma saveWorkspaceStateMetadata_isDirectory:
  "isDirectory (saveWorkspaceStateMetadata st fs) q = isDirectory fs q"
  by (cases "writeFileSync metadataFile (MetadataJson (workspaceStateMetadata st)) fs")
     (simp_all add: saveWorkspaceStateMetadata_def isDirectory_write)

text \<open>
  C9, as amended. A deletion of a snapshot that the index holds, confirmed by the user,
  removes the content directory with one call of \<open>fs.removeSync\<close>, inside the \<open>try\<close> block
  that also updates the index. When the directory exists and its removal throws, the call
  ends with the error message, and the index and the disk are as before: the record is
  still in the index. Otherwise the record found is the one with the id asked for, it is
  taken out of the index (one record fewer), the content directory is gone, and the index
  file holds the new index whenever the store is a directory in which \<open>metadata.json\<close> is
  not one.
\<close>

theorem deleteVibe_removal:
  assumes init: "workspaceInfo st \<noteq> None"
    and found: "findIndex (\<lambda>s. meta_id s = delete_id rq) (workspaceStateMetadata st) = Some index"
    and conf: "delete_confirmed rq"
  shows "if existsSync fs (vibeDir @ [delete_id rq]) \<and> delete_removeThrows rq
         then deleteVibe st fs rq = (Failed, st, fs)
         else (\<exists>fs'.
                 deleteVibe st fs rq =
                   (Success,
                    st\<lparr>workspaceStateMetadata := splice1 index (workspaceStateMetadata st)\<rparr>,
                    fs')
               \<and> meta_id (workspaceStateMetadata st ! index) = delete_id rq
               \<and> length (splice1 index (workspaceStateMetadata st)) + 1 =
                   length (workspaceStateMetadata st)
               \<and> (delete_id rq \<noteq> ''metadata.json'' \<longrightarrow>
                    \<not> existsSync fs' (vibeDir @ [delete_id rq]))
               \<and> (isDirectory fs vibeDir \<and> \<not> isDirectory fs metadataFile \<longrightarrow>
                    readFileSync fs' metadataFile =
                      Some (MetadataJson (splice1 index (workspaceStateMetadata st)))))"
proof (cases "existsSync fs (vibeDir @ [delete_id rq]) \<and> delete_removeThrows rq")
  case True
  from findIndex_Some[OF found] have id: "meta_id (workspaceStateMetadata st ! index) = delete_id rq"
    by simp
  from True init found conf id show ?thesis by (simp add: deleteVibe_def Let_def)
next
  case False
  let ?D = "vibeDir @ [delete_id rq]"
  let ?st' = "st\<lparr>workspaceStateMetadata := splice1 index (workspaceStateMetadata st)\<rparr>"
  let ?fs1 = "if existsSync fs ?D then remove ?D fs else fs"
  let ?fs' = "saveWorkspaceStateMetadata ?st' ?fs1"
  from findIndex_Some[OF found] have lt: "index < length (workspaceStateMetadata st)"
    and id: "meta_id (workspaceStateMetadata st ! index) = delete_id rq"
    by simp_all
  have run: "deleteVibe st fs rq = (Success, ?st', ?fs')"
    using False init found conf id by (simp add: deleteVibe_def Let_def)
  have len: "length (splice1 index (workspaceStateMetadata st)) + 1 =
      length (workspaceStateMetadata st)"
    using lt by (simp add: splice1_def)
  have gone1: "\<not> existsSync ?fs1 ?D"
    using existsSync_remove[of ?D fs] by simp
  have gone: "\<not> existsSync ?fs' ?D" if "delete_id rq \<noteq> ''metadata.json''"
  proof -
    have "?D \<noteq> metadataFile" using that by (simp add: metadataFile_def)
    then show ?thesis
      using gone1
      by (simp only: existsSync_cases saveWorkspaceStateMetadata_read
          saveWorkspaceStateMetadata_isDirectory if_False simp_thms)
  qed
  have saved: "readFileSync ?fs' metadataFile =
      Some (MetadataJson (splice1 index (workspaceStateMetadata st)))"
    if "isDirectory fs vibeDir \<and> \<not> isDirectory fs metadataFile"
  proof -
    have "isDirectory ?fs1 vibeDir \<and> \<not> isDirectory ?fs1 metadataFile"
      using that by (simp add: isDirectory_remove vibeDir_def)
    then show ?thesis by (simp add: saveWorkspaceStateMetadata_read)
  qed
  from False run id len gone saved show ?thesis by auto
qed

theorem deleteVibe_removal_witness:
  "workspaceInfo example_indexed \<noteq> None
   \<and> findIndex (\<lambda>s. meta_id s = delete_id example_delete)
       (workspaceStateMetadata example_indexed) = Some 0
   \<and> delete_confirmed example_delete
   \<and> existsSync example_captured [''.vibesync'', ''state-s-1-5001'']
   \<and> deleteVibe example_indexed example_captured example_delete =
       (Success, example_indexed\<lparr>workspaceStateMetadata := []\<rparr>, example_deleted)
   \<and> \<not> existsSync example_deleted [''.vibesync'', ''state-s-1-5001'']
   \<and> readFileSync example_deleted metadataFile = Some (MetadataJson [])"
proof -
  have init: "workspaceInfo example_indexed \<noteq> None"
    by (simp add: example_indexed_def example_state_def)
  have found: "findIndex (\<lambda>s. meta_id s = delete_id example_delete)
       (workspaceStateMetadata example_indexed) = Some 0"
    by (simp add: example_indexed_def example_delete_def example_metadata_def)
  have conf: "delete_confirmed example_delete" by (simp add: example_delete_def)
  have ex: "existsSync example_captured [''.vibesync'', ''state-s-1-5001'']"
    by (simp add: example_captured_def existsSync_def)
  have run: "deleteVibe example_indexed example_captured example_delete =
       (Success, example_indexed\<lparr>workspaceStateMetadata := []\<rparr>, example_deleted)"
    by (simp add: deleteVibe_def Let_def example_defs fs_defs splice1_def
        saveWorkspaceStateMetadata_def)
  have sp: "splice1 0 (workspaceStateMetadata example_indexed) = []"
    by (simp add: splice1_def example_indexed_def)
  have nt: "\<not> delete_removeThrows example_delete" "delete_id example_delete = ''state-s-1-5001''"
    by (simp_all add: example_delete_def)
  have dir: "isDirectory example_captured vibeDir \<and> \<not> isDirectory example_captured metadataFile"
    by (simp add: example_captured_def isDirectory_def vibeDir_def metadataFile_def)
  from deleteVibe_removal [OF init found conf, of example_captured] nt dir run sp
  have "\<not> existsSync example_deleted [''.vibesync'', ''state-s-1-5001'']"
    "readFileSync example_deleted metadataFile = Some (MetadataJson [])"
    by (simp_all add: vibeDir_def)
  with init found conf ex run show ?thesis by simp
qed

text \<open>
  C9 as stated fails when the removal throws: the snapshot of the scenario is in the index
  and on the disk, the deletion is confirmed and \<open>fs.removeSync\<close> throws. The call ends with
  the error message; the index still holds the record and nothing is written.
\<close>

theorem deleteVibe_failed_removal_counterexample:
  "existsSync example_captured [''.vibesync'', ''state-s-1-5001'']
   \<and> deleteVibe example_indexed example_captured
        (example_delete\<lparr>delete_removeThrows := True\<rparr>) =
      (Failed, example_indexed, example_captured)
   \<and> workspaceStateMetadata example_indexed = [example_metadata]
   \<and> meta_id example_metadata = ''state-s-1-5001''"
  by (simp add: deleteVibe_def Let_def example_defs fs_defs)

end
